theory Spec2Isabelle
  imports Complex_Main
begin

section \<open>JavaScript values\<close>

text \<open>
  The script \<^verbatim>\<open>index.js\<close> is one asynchronous function. It calls four libraries
  (bip39, bip32, bitcoinjs-lib, axios), writes to the console and ends the process with
  \<^verbatim>\<open>process.exit\<close>. The model keeps the script's own control flow and takes the
  library functions as fields of an environment record. A run yields the list of
  observable events (library calls and console lines, in program order) together with
  the \<^verbatim>\<open>process.exit\<close> call that ended it.
\<close>

text \<open>
  A JavaScript number is a double: a finite value, one of the two infinities, or NaN.
  The script only tests \<^verbatim>\<open>typeof x === 'number'\<close> and \<^verbatim>\<open>x > 0\<close>, both exact.
\<close>

datatype js_number = Finite real | PosInfinity | NegInfinity | NaN

text \<open>\<^verbatim>\<open>balanceSat > 0\<close> (line 181).\<close>

fun gt_zero :: "js_number \<Rightarrow> bool" where
  "gt_zero (Finite r) = (0 < r)"
| "gt_zero PosInfinity = True"
| "gt_zero NegInfinity = False"
| "gt_zero NaN = False"

text \<open>
  The body of an HTTP response as axios hands it over (\<^verbatim>\<open>resp.data\<close>): parsed JSON.
  An object is the association list of its own properties, the first binding of a key
  being its value.
\<close>

datatype js_value =
    JUndefined
  | JNull
  | JBoolean bool
  | JNumber js_number
  | JString string
  | JObject "(string \<times> js_value) list"

text \<open>
  A thrown value. \<^verbatim>\<open>Error msg\<close> is \<^verbatim>\<open>new Error(msg)\<close>, by the script or by a library;
  \<^verbatim>\<open>TypeError\<close> is what the engine throws on a property read of \<^verbatim>\<open>null\<close> or
  \<^verbatim>\<open>undefined\<close> (its message is the engine's own and is not modelled).
\<close>

datatype error = Error string | TypeError

text \<open>Truthiness, as the left operand of \<^verbatim>\<open>&&\<close> (line 117).\<close>

fun truthy :: "js_value \<Rightarrow> bool" where
  "truthy JUndefined = False"
| "truthy JNull = False"
| "truthy (JBoolean b) = b"
| "truthy (JNumber (Finite r)) = (r \<noteq> 0)"
| "truthy (JNumber NaN) = False"
| "truthy (JNumber _) = True"
| "truthy (JString s) = (s \<noteq> [])"
| "truthy (JObject _) = True"

text \<open>
  \<^verbatim>\<open>v[k]\<close>: throws on \<^verbatim>\<open>null\<close> and \<^verbatim>\<open>undefined\<close>. On a
  primitive, and for a key the object does not own, the script can only get
  \<^verbatim>\<open>undefined\<close> or a value without a \<^verbatim>\<open>final_balance\<close> property (a character, a
  length, a prototype method); it treats all of these alike, so they are
  \<^verbatim>\<open>undefined\<close> here.
\<close>

fun get_property :: "js_value \<Rightarrow> string \<Rightarrow> error + js_value" where
  "get_property JUndefined k = Inl TypeError"
| "get_property JNull k = Inl TypeError"
| "get_property (JObject kvs) k =
     (case map_of kvs k of None \<Rightarrow> Inr JUndefined | Some v \<Rightarrow> Inr v)"
| "get_property _ k = Inr JUndefined"

section \<open>Events and the environment\<close>

datatype event =
    Validate string                \<comment> \<open>call \<^verbatim>\<open>bip39.validateMnemonic(candidatePhrase)\<close>\<close>
  | GetRoot string                 \<comment> \<open>call \<^verbatim>\<open>getRootFromMnemonic(candidatePhrase)\<close>\<close>
  | Derive string string           \<comment> \<open>call \<^verbatim>\<open>derivePubkeyAndAddress(root, path, code)\<close>: code, path\<close>
  | HttpGet nat string             \<comment> \<open>call \<^verbatim>\<open>axios.get(url)\<close>: requests issued before, url\<close>
  | ErrNullCount                   \<comment> \<open>console.error, line 47\<close>
  | ErrSeed string error           \<comment> \<open>console.error, line 149: phrase, error\<close>
  | ErrDerive string string error  \<comment> \<open>console.error, line 169: code, path, error\<close>
  | ErrQuery string error          \<comment> \<open>console.error, line 125: address, error\<close>
  | LogStart int                   \<comment> \<open>console.log, line 52: missingIndex\<close>
  | LogSeparator                   \<comment> \<open>console.log, lines 143, 197, 199\<close>
  | LogValid string                \<comment> \<open>console.log, line 144: phrase\<close>
  | LogDerived string string string \<comment> \<open>console.log, line 173: code, path, address\<close>
  | LogRequest string              \<comment> \<open>console.log, line 111: address\<close>
  | LogResponse js_number          \<comment> \<open>console.log, line 118: balance\<close>
  | LogNoField string              \<comment> \<open>console.log, line 121: address\<close>
  | LogNoBalance string            \<comment> \<open>console.log, line 178: address\<close>
  | LogZero string                 \<comment> \<open>console.log, line 191: address\<close>
  | LogFound int string string string string string js_number
      \<comment> \<open>the report of lines 182 to 188: missingIndex, word, phrase, code, path, address, balance\<close>
  | LogFinished                    \<comment> \<open>console.log, line 198\<close>

text \<open>
  The libraries. A function that can throw returns a sum, \<open>Inl\<close> the thrown value.
  \<^verbatim>\<open>bip39.validateMnemonic\<close> catches its own errors and answers with a boolean.
  \<open>derivePath\<close> stands for \<^verbatim>\<open>root.derivePath(path)\<close> followed by the read of the
  child's public key; \<open>p2pkh\<close>, \<open>p2wpkh\<close> and \<open>p2sh\<close> are the payment
  constructors of bitcoinjs-lib on the main network, the last one taking the payment it
  wraps, and \<open>address\<close> reads the address of a payment. \<open>axios_get\<close> is the
  request with its timeout of ten seconds, a timeout being one of the errors it throws.
  The answer of the balance service may change from one request to the next, so
  \<open>axios_get\<close> also takes the number of requests issued before.
\<close>

record ('seed, 'root, 'key, 'pay) env =
  validateMnemonic :: "string \<Rightarrow> bool"
  mnemonicToSeedSync :: "string \<Rightarrow> error + 'seed"
  fromSeed :: "'seed \<Rightarrow> error + 'root"
  derivePath :: "'root \<Rightarrow> string \<Rightarrow> error + 'key"
  p2pkh :: "'key \<Rightarrow> error + 'pay"
  p2wpkh :: "'key \<Rightarrow> error + 'pay"
  p2sh :: "'pay \<Rightarrow> error + 'pay"
  address :: "'pay \<Rightarrow> string"
  axios_get :: "nat \<Rightarrow> string \<Rightarrow> error + js_value"

datatype exit_site =
    ExitNullCount   \<comment> \<open>\<^verbatim>\<open>process.exit(1)\<close>, line 48\<close>
  | ExitFound       \<comment> \<open>\<^verbatim>\<open>process.exit(0)\<close>, line 189\<close>
  | ExitFinished    \<comment> \<open>\<^verbatim>\<open>process.exit(0)\<close>, line 200\<close>

fun exit_code :: "exit_site \<Rightarrow> int" where
  "exit_code ExitNullCount = 1"
| "exit_code ExitFound = 0"
| "exit_code ExitFinished = 0"

section \<open>Arrays and strings\<close>

text \<open>\<^verbatim>\<open>xs.indexOf(x)\<close>: the first position of \<open>x\<close>, or \<open>-1\<close>.\<close>

fun indexOf :: "'a list \<Rightarrow> 'a \<Rightarrow> int" where
  "indexOf [] x = -1"
| "indexOf (y # ys) x =
     (if y = x then 0 else (let r = indexOf ys x in if r < 0 then -1 else r + 1))"

text \<open>
  \<^verbatim>\<open>xs[i] = v\<close>. Past the end JavaScript extends the array, leaving holes (which
  \<^verbatim>\<open>join\<close> prints like \<^verbatim>\<open>null\<close>); a negative \<open>i\<close> sets a property that is no
  element.
\<close>

definition array_set :: "string option list \<Rightarrow> int \<Rightarrow> string option \<Rightarrow> string option list" where
  "array_set xs i v =
     (if 0 \<le> i \<and> nat i < length xs then xs[nat i := v]
      else if 0 \<le> i then xs @ replicate (nat i - length xs) None @ [v]
      else xs)"

text \<open>\<^verbatim>\<open>xs.join(' ')\<close>: \<^verbatim>\<open>null\<close> is printed as the empty string.\<close>

fun word_str :: "string option \<Rightarrow> string" where
  "word_str None = []"
| "word_str (Some w) = w"

fun join_words :: "string option list \<Rightarrow> string" where
  "join_words [] = []"
| "join_words [x] = word_str x"
| "join_words (x # y # ys) = word_str x @ '' '' @ join_words (y # ys)"

text \<open>The decimal digits of a number, as a template literal prints \<^verbatim>\<open>${idx}\<close>.\<close>

fun string_of_nat :: "nat \<Rightarrow> string" where
  "string_of_nat n =
     (if n < 10 then [''0123456789'' ! n]
      else string_of_nat (n div 10) @ [''0123456789'' ! (n mod 10)])"

declare string_of_nat.simps [simp del]

section \<open>The functions of the script\<close>

text \<open>\<^verbatim>\<open>getRootFromMnemonic\<close>, lines 58 to 61.\<close>

definition getRootFromMnemonic ::
  "('seed, 'root, 'key, 'pay) env \<Rightarrow> string \<Rightarrow> error + 'root" where
  "getRootFromMnemonic env mnemonic =
     (case mnemonicToSeedSync env mnemonic of
        Inl err \<Rightarrow> Inl err
      | Inr seed \<Rightarrow> fromSeed env seed)"

text \<open>\<^verbatim>\<open>derivePubkeyAndAddress\<close>, lines 64 to 106.\<close>

definition derivePubkeyAndAddress ::
  "('seed, 'root, 'key, 'pay) env \<Rightarrow> 'root \<Rightarrow> string \<Rightarrow> string \<Rightarrow> error + ('key \<times> string)" where
  "derivePubkeyAndAddress env rootNode path addressType =
     (case derivePath env rootNode path of
        Inl err \<Rightarrow> Inl err
      | Inr pubkeyBuffer \<Rightarrow>
          (if addressType = ''P2PKH'' then
             (case p2pkh env pubkeyBuffer of
                Inl err \<Rightarrow> Inl err
              | Inr addressObj \<Rightarrow> Inr (pubkeyBuffer, address env addressObj))
           else if addressType = ''P2SH-P2WPKH'' then
             (case p2wpkh env pubkeyBuffer of
                Inl err \<Rightarrow> Inl err
              | Inr redeem \<Rightarrow>
                  (case p2sh env redeem of
                     Inl err \<Rightarrow> Inl err
                   | Inr addressObj \<Rightarrow> Inr (pubkeyBuffer, address env addressObj)))
           else if addressType = ''P2WPKH'' then
             (case p2wpkh env pubkeyBuffer of
                Inl err \<Rightarrow> Inl err
              | Inr addressObj \<Rightarrow> Inr (pubkeyBuffer, address env addressObj))
           else Inl (Error (''Unsupported addressType: '' @ addressType))))"

text \<open>
  \<^verbatim>\<open>getBalanceSatoshis\<close>, lines 109 to 128. First the \<^verbatim>\<open>try\<close> block: the events it
  produces and either the value it throws or the value it returns (\<open>None\<close> is
  \<^verbatim>\<open>null\<close>).
\<close>

definition balance_url :: "string \<Rightarrow> string" where
  "balance_url addr = ''https://blockchain.info/balance?active='' @ addr"

definition getBalance_try ::
  "('seed, 'root, 'key, 'pay) env \<Rightarrow> nat \<Rightarrow> string \<Rightarrow> event list \<times> (error + js_number option)" where
  "getBalance_try env n addr =
     (let sent = [LogRequest addr, HttpGet n (balance_url addr)] in
      case axios_get env n (balance_url addr) of
        Inl err \<Rightarrow> (sent, Inl err)
      | Inr data \<Rightarrow>
          (case get_property data addr of
             Inl err \<Rightarrow> (sent, Inl err)
           | Inr entry \<Rightarrow>
               (if truthy entry then
                  (case get_property entry ''final_balance'' of
                     Inl err \<Rightarrow> (sent, Inl err)
                   | Inr (JNumber b) \<Rightarrow> (sent @ [LogResponse b], Inr (Some b))
                   | Inr _ \<Rightarrow> (sent @ [LogNoField addr], Inr None))
                else (sent @ [LogNoField addr], Inr None))))"

text \<open>The \<^verbatim>\<open>catch\<close> of line 124 turns every thrown value into \<^verbatim>\<open>null\<close>.\<close>

definition getBalanceSatoshis ::
  "('seed, 'root, 'key, 'pay) env \<Rightarrow> nat \<Rightarrow> string \<Rightarrow> event list \<times> js_number option" where
  "getBalanceSatoshis env n addr =
     (case getBalance_try env n addr of
        (evs, Inl err) \<Rightarrow> (evs @ [ErrQuery addr err], None)
      | (evs, Inr r) \<Rightarrow> (evs, r))"

section \<open>The main loop\<close>

text \<open>
  A part of the loop returns its events, the number of requests issued so far and
  whether it called \<^verbatim>\<open>process.exit(0)\<close> at line 189.
\<close>

type_synonym progress = "event list \<times> nat \<times> bool"

definition prepend :: "event list \<Rightarrow> progress \<Rightarrow> progress" where
  "prepend evs r = (case r of (evs', n, exited) \<Rightarrow> (evs @ evs', n, exited))"

text \<open>\<^verbatim>\<open>addressTypes\<close>, lines 156 to 160, and \<^verbatim>\<open>indicesToCheck\<close>, line 155.\<close>

definition addressTypes :: "(string \<times> string) list" where
  "addressTypes =
     [(''P2PKH'', ''m/44'/0'/0'/0/''),
      (''P2SH-P2WPKH'', ''m/49'/0'/0'/0/''),
      (''P2WPKH'', ''m/84'/0'/0'/0/'')]"

definition indicesToCheck :: "nat list" where
  "indicesToCheck = [0]"

text \<open>
  The loop over the address types, lines 163 to 193, for one index \<open>idx\<close>. The first
  three string arguments are what the report of a find prints: \<open>missingIndex\<close>,
  \<^verbatim>\<open>wordlist[i]\<close> and \<open>candidatePhrase\<close>.
\<close>

fun check_types ::
  "('seed, 'root, 'key, 'pay) env \<Rightarrow> int \<Rightarrow> string \<Rightarrow> string \<Rightarrow> 'root \<Rightarrow> nat \<Rightarrow>
     (string \<times> string) list \<Rightarrow> nat \<Rightarrow> progress" where
  "check_types env missingIndex word candidatePhrase rootNode idx [] n = ([], n, False)"
| "check_types env missingIndex word candidatePhrase rootNode idx ((code, pref) # rest) n =
     (let path = pref @ string_of_nat idx in
      case derivePubkeyAndAddress env rootNode path code of
        Inl err \<Rightarrow>
          prepend [Derive code path, ErrDerive code path err]
            (check_types env missingIndex word candidatePhrase rootNode idx rest n)
      | Inr (pubkey, addr) \<Rightarrow>
          (case getBalanceSatoshis env n addr of
             (bevs, None) \<Rightarrow>
               prepend ([Derive code path, LogDerived code path addr] @ bevs @ [LogNoBalance addr])
                 (check_types env missingIndex word candidatePhrase rootNode idx rest (Suc n))
           | (bevs, Some balanceSat) \<Rightarrow>
               (if gt_zero balanceSat then
                  ([Derive code path, LogDerived code path addr] @ bevs @
                     [LogFound missingIndex word candidatePhrase code path addr balanceSat],
                   Suc n, True)
                else
                  prepend ([Derive code path, LogDerived code path addr] @ bevs @ [LogZero addr])
                    (check_types env missingIndex word candidatePhrase rootNode idx rest (Suc n)))))"

text \<open>The loop over the indices, line 162.\<close>

fun check_indices ::
  "('seed, 'root, 'key, 'pay) env \<Rightarrow> int \<Rightarrow> string \<Rightarrow> string \<Rightarrow> 'root \<Rightarrow> nat list \<Rightarrow>
     nat \<Rightarrow> progress" where
  "check_indices env missingIndex word candidatePhrase rootNode [] n = ([], n, False)"
| "check_indices env missingIndex word candidatePhrase rootNode (idx # idxs) n =
     (case check_types env missingIndex word candidatePhrase rootNode idx addressTypes n of
        (evs, n', exited) \<Rightarrow>
          (if exited then (evs, n', True)
           else prepend evs (check_indices env missingIndex word candidatePhrase rootNode idxs n')))"

text \<open>
  One pass through the body of the main loop, lines 132 to 194, for the word
  \<^verbatim>\<open>wordlist[i]\<close>. The array \<open>mnemonicWords\<close> is overwritten in place, so the pass
  returns it as well.
\<close>

definition iteration ::
  "('seed, 'root, 'key, 'pay) env \<Rightarrow> int \<Rightarrow> string option list \<Rightarrow> string \<Rightarrow> nat \<Rightarrow>
     string option list \<times> progress" where
  "iteration env missingIndex mnemonicWords word n =
     (let mnemonicWords' = array_set mnemonicWords missingIndex (Some word);
          candidatePhrase = join_words mnemonicWords'
      in if \<not> validateMnemonic env candidatePhrase then
           (mnemonicWords', [Validate candidatePhrase], n, False)
         else
           (case getRootFromMnemonic env candidatePhrase of
              Inl err \<Rightarrow>
                (mnemonicWords',
                 [Validate candidatePhrase, LogSeparator, LogValid candidatePhrase,
                  GetRoot candidatePhrase, ErrSeed candidatePhrase err],
                 n, False)
            | Inr rootNode \<Rightarrow>
                (mnemonicWords',
                 prepend
                   [Validate candidatePhrase, LogSeparator, LogValid candidatePhrase,
                    GetRoot candidatePhrase]
                   (check_indices env missingIndex word candidatePhrase rootNode indicesToCheck n))))"

text \<open>The \<^verbatim>\<open>for\<close> loop of line 131, from index \<open>i\<close> on.\<close>

function main_loop ::
  "('seed, 'root, 'key, 'pay) env \<Rightarrow> string list \<Rightarrow> int \<Rightarrow> string option list \<Rightarrow> nat \<Rightarrow>
     nat \<Rightarrow> progress" where
  "main_loop env wordlist missingIndex mnemonicWords i n =
     (if i < length wordlist then
        (case iteration env missingIndex mnemonicWords (wordlist ! i) n of
           (mnemonicWords', evs, n', exited) \<Rightarrow>
             (if exited then (evs, n', True)
              else prepend evs (main_loop env wordlist missingIndex mnemonicWords' (Suc i) n')))
      else ([], n, False))"
  by pat_completeness auto
termination
  by (relation "measure (\<lambda>(env, wordlist, missingIndex, mnemonicWords, i, n). length wordlist - i)")
    auto

declare main_loop.simps [simp del]

text \<open>The script, lines 26 to 201, for a word list and a template \<open>mnemonicWords\<close>.\<close>

definition nullCount :: "string option list \<Rightarrow> nat" where
  "nullCount mnemonicWords = length (filter (\<lambda>x. x = None) mnemonicWords)"

definition main ::
  "('seed, 'root, 'key, 'pay) env \<Rightarrow> string list \<Rightarrow> string option list \<Rightarrow>
     event list \<times> exit_site" where
  "main env wordlist mnemonicWords =
     (if nullCount mnemonicWords \<noteq> 1 then ([ErrNullCount], ExitNullCount)
      else
        (let missingIndex = indexOf mnemonicWords None in
         case main_loop env wordlist missingIndex mnemonicWords 0 0 of
           (evs, n, exited) \<Rightarrow>
             (if exited then (LogStart missingIndex # evs, ExitFound)
              else (LogStart missingIndex # evs @ [LogSeparator, LogFinished, LogSeparator],
                    ExitFinished))))"

section \<open>Reading a run\<close>

text \<open>
  The vocabulary in which the properties of a run are stated. \<open>exited\<close> reads the
  flag of a part of the loop; \<open>pass\<close> is one pass through the loop body without the
  array it hands on; \<open>candidate\<close> is the phrase built at lines 133 and 134.
\<close>

abbreviation exited :: "progress \<Rightarrow> bool" where
  "exited r \<equiv> snd (snd r)"

abbreviation pass :: "('seed, 'root, 'key, 'pay) env \<Rightarrow> int \<Rightarrow> string option list \<Rightarrow> string \<Rightarrow> nat \<Rightarrow> progress" where
  "pass env mi mw w n \<equiv> snd (iteration env mi mw w n)"

definition candidate :: "string option list \<Rightarrow> int \<Rightarrow> string \<Rightarrow> string" where
  "candidate mw mi w = join_words (array_set mw mi (Some w))"

text \<open>The phrases handed to the checksum validator, in the order of the calls.\<close>

fun phrase_of :: "event \<Rightarrow> string list" where
  "phrase_of (Validate p) = [p]"
| "phrase_of _ = []"

definition validated :: "event list \<Rightarrow> string list" where
  "validated evs = concat (map phrase_of evs)"

text \<open>
  The calls of \<^verbatim>\<open>derivePubkeyAndAddress\<close>, as pairs of address type and path, in
  order; \<open>scheme_calls\<close> is what a full pass over a list of address types asks for.
\<close>

fun scheme_of :: "event \<Rightarrow> (string \<times> string) list" where
  "scheme_of (Derive code path) = [(code, path)]"
| "scheme_of _ = []"

definition derived :: "event list \<Rightarrow> (string \<times> string) list" where
  "derived evs = concat (map scheme_of evs)"


text \<open>
  A positive balance is observed when line 118 prints a number above zero. \<open>quiet\<close>
  says that a list of events holds no such line; \<open>after_first_positive\<close> is what
  follows the first one. \<open>is_call\<close> picks the events that evaluate something: a
  library call or a request.
\<close>

fun positive_response :: "event \<Rightarrow> bool" where
  "positive_response (LogResponse b) = gt_zero b"
| "positive_response _ = False"

fun is_call :: "event \<Rightarrow> bool" where
  "is_call (Validate p) = True"
| "is_call (GetRoot p) = True"
| "is_call (Derive c p) = True"
| "is_call (HttpGet n u) = True"
| "is_call _ = False"

definition quiet :: "event list \<Rightarrow> bool" where
  "quiet evs = (filter positive_response evs = [])"

definition after_first_positive :: "event list \<Rightarrow> event list" where
  "after_first_positive evs = tl (dropWhile (\<lambda>e. \<not> positive_response e) evs)"

text \<open>
  The events of a find: some events without a positive balance, then the positive
  balance and the report of lines 182 to 188 for the word \<open>w\<close> and the phrase \<open>p\<close>.
\<close>

definition found_trace :: "int \<Rightarrow> string \<Rightarrow> string \<Rightarrow> event list \<Rightarrow> bool" where
  "found_trace mi w p evs =
     (\<exists>pre b code path addr.
        evs = pre @ [LogResponse b, LogFound mi w p code path addr b] \<and> gt_zero b \<and> quiet pre)"

text \<open>
  The contract of the balance service, section 6 of the specification: the response is
  keyed by the address and holds a final balance, a number. \<open>balance_field\<close> reads
  that number from a response and is \<open>None\<close> when the entry or the field is
  missing or the field is not a number.
\<close>

fun balance_field :: "js_value \<Rightarrow> string \<Rightarrow> js_number option" where
  "balance_field (JObject kvs) addr =
     (case map_of kvs addr of
        Some (JObject props) \<Rightarrow>
          (case map_of props ''final_balance'' of
             Some (JNumber b) \<Rightarrow> Some b
           | _ \<Rightarrow> None)
      | _ \<Rightarrow> None)"
| "balance_field _ addr = None"

section \<open>Sample environments\<close>

text \<open>
  Small instances of the libraries, for running the model. In \<open>demo_env\<close> every
  phrase passes the checksum, seed, root node and public key are the phrase itself, the
  three encoders put a prefix before the key, and every request to the balance service
  times out. The others change one or two fields of it.
\<close>

definition demo_env :: "(string, string, string, string) env" where
  "demo_env =
     \<lparr>validateMnemonic = (\<lambda>p. True),
      mnemonicToSeedSync = Inr,
      fromSeed = Inr,
      derivePath = (\<lambda>r path. Inr r),
      p2pkh = (\<lambda>k. Inr (''1'' @ k)),
      p2wpkh = (\<lambda>k. Inr (''bc1'' @ k)),
      p2sh = (\<lambda>p. Inr (''3'' @ p)),
      address = (\<lambda>p. p),
      axios_get = (\<lambda>n url. Inl (Error ''timeout''))\<rparr>"

text \<open>A response of the service with one entry.\<close>

definition balance_reply :: "string \<Rightarrow> js_number \<Rightarrow> js_value" where
  "balance_reply addr b = JObject [(addr, JObject [(''final_balance'', JNumber b)])]"

text \<open>Two funded addresses: the nested SegWit address of \<open>x b\<close>, the legacy one of \<open>x c\<close>.\<close>

definition funded_env :: "(string, string, string, string) env" where
  "funded_env =
     demo_env\<lparr>axios_get := (\<lambda>n url.
        if url = balance_url ''3bc1x b'' then Inr (balance_reply ''3bc1x b'' (Finite 5000))
        else if url = balance_url ''1x c'' then Inr (balance_reply ''1x c'' (Finite 7))
        else Inr (JObject []))\<rparr>"

text \<open>A service that reports half a satoshi, and one that reports a negative balance.\<close>

definition half_env :: "(string, string, string, string) env" where
  "half_env =
     demo_env\<lparr>axios_get := (\<lambda>n url. Inr (balance_reply ''1x a'' (Finite (1/2))))\<rparr>"

definition debt_env :: "(string, string, string, string) env" where
  "debt_env =
     demo_env\<lparr>axios_get := (\<lambda>n url. Inr (balance_reply ''1x a'' (Finite (- 5))))\<rparr>"

text \<open>
  Child key derivation fails on the BIP-44 path only, and the nested SegWit address of
  \<open>x a\<close> is funded.
\<close>

definition broken_path_env :: "(string, string, string, string) env" where
  "broken_path_env =
     demo_env\<lparr>derivePath := (\<lambda>r path.
        if path = ''m/44'/0'/0'/0/0'' then Inl (Error ''Expected BIP32Path'') else Inr r),
       axios_get := (\<lambda>n url. Inr (balance_reply ''3bc1x a'' (Finite 5000)))\<rparr>"

text \<open>No seed yields a root node; only \<open>x b\<close> passes the checksum; a service that
  answers from the fourth request on.\<close>

definition no_seed_env :: "(string, string, string, string) env" where
  "no_seed_env = demo_env\<lparr>fromSeed := (\<lambda>seed. Inl (Error ''Seed should be at least 128 bits''))\<rparr>"

definition strict_env :: "(string, string, string, string) env" where
  "strict_env = demo_env\<lparr>validateMnemonic := (\<lambda>p. p = ''x b'')\<rparr>"

definition late_env :: "(string, string, string, string) env" where
  "late_env =
     demo_env\<lparr>axios_get := (\<lambda>n url.
        if n < 3 then Inl (Error ''timeout'') else Inr (balance_reply ''1x a'' (Finite 9)))\<rparr>"

text \<open>A template of twelve slots with the last one open, and a word list of 2048 entries.\<close>

definition template12 :: "string option list" where
  "template12 =
     [Some ''w1'', Some ''w2'', Some ''w3'', Some ''w4'', Some ''w5'', Some ''w6'', Some ''w7'',
      Some ''w8'', Some ''w9'', Some ''w10'', Some ''w11'', None]"

definition wordlist2048 :: "string list" where
  "wordlist2048 = replicate 2047 ''abandon'' @ [''zoo'']"

section \<open>Properties of the balance client\<close>

lemma prepend_simp [simp]: "prepend evs (evs', n, b) = (evs @ evs', n, b)"
  by (simp add: prepend_def)

lemma fst_prepend [simp]: "fst (prepend evs r) = evs @ fst r"
  by (cases r) simp

lemma snd_prepend [simp]: "snd (prepend evs r) = snd r"
  by (cases r) simp

text \<open>
  What the \<^verbatim>\<open>try\<close> block yields: the thrown value of the request, a type error on a
  \<^verbatim>\<open>null\<close> body, and otherwise the number the contract names.
\<close>

lemma getBalance_try_result:
  "snd (getBalance_try env n addr) =
     (case axios_get env n (balance_url addr) of
        Inl err \<Rightarrow> Inl err
      | Inr data \<Rightarrow>
          (if data = JNull \<or> data = JUndefined then Inl TypeError
           else Inr (balance_field data addr)))"
proof (cases "axios_get env n (balance_url addr)")
  case (Inl err)
  then show ?thesis by (simp add: getBalance_try_def)
next
  case (Inr data)
  show ?thesis
  proof (cases data)
    case (JObject kvs)
    show ?thesis
    proof (cases "map_of kvs addr")
      case None
      with Inr JObject show ?thesis by (simp add: getBalance_try_def)
    next
      case (Some entry)
      with Inr JObject show ?thesis
        by (cases entry)
          (auto simp: getBalance_try_def Let_def split: option.splits js_value.splits)
    qed
  qed (use Inr in \<open>simp_all add: getBalance_try_def\<close>)
qed

lemma getBalance_try_events:
  "fst (getBalance_try env n addr) =
     [LogRequest addr, HttpGet n (balance_url addr)] @
     (case snd (getBalance_try env n addr) of
        Inl err \<Rightarrow> []
      | Inr None \<Rightarrow> [LogNoField addr]
      | Inr (Some b) \<Rightarrow> [LogResponse b])"
proof (cases "axios_get env n (balance_url addr)")
  case (Inl err)
  then show ?thesis by (simp add: getBalance_try_def)
next
  case data: (Inr data)
  show ?thesis
  proof (cases "get_property data addr")
    case (Inl err)
    with data show ?thesis by (simp add: getBalance_try_def)
  next
    case entry: (Inr entry)
    show ?thesis
    proof (cases "truthy entry")
      case False
      with data entry show ?thesis by (simp add: getBalance_try_def)
    next
      case True
      show ?thesis
      proof (cases "get_property entry ''final_balance''")
        case (Inl err)
        with data entry True show ?thesis by (simp add: getBalance_try_def)
      next
        case (Inr v)
        with data entry True show ?thesis
          by (cases v) (simp_all add: getBalance_try_def)
      qed
    qed
  qed
qed

lemma getBalanceSatoshis_Some:
  "getBalanceSatoshis env n addr = (bevs, Some b) \<Longrightarrow>
     bevs = [LogRequest addr, HttpGet n (balance_url addr), LogResponse b]"
  using getBalance_try_events [of env n addr]
  by (cases "getBalance_try env n addr")
    (auto simp: getBalanceSatoshis_def split: sum.splits option.splits)

lemma getBalanceSatoshis_None:
  "getBalanceSatoshis env n addr = (bevs, None) \<Longrightarrow>
     (\<exists>tl. bevs = [LogRequest addr, HttpGet n (balance_url addr), tl] \<and> \<not> positive_response tl \<and> \<not> is_call tl)"
  using getBalance_try_events [of env n addr]
  by (cases "getBalance_try env n addr")
    (auto simp: getBalanceSatoshis_def split: sum.splits option.splits)

lemma getBalanceSatoshis_shape:
  obtains (unknown) x where
      "getBalanceSatoshis env n addr = ([LogRequest addr, HttpGet n (balance_url addr), x], None)"
      "x = LogNoField addr \<or> (\<exists>err. x = ErrQuery addr err)"
  | (known) b where
      "getBalanceSatoshis env n addr =
         ([LogRequest addr, HttpGet n (balance_url addr), LogResponse b], Some b)"
proof (cases "getBalanceSatoshis env n addr")
  case (Pair bevs r)
  show ?thesis
  proof (cases r)
    case None
    with Pair getBalanceSatoshis_None [of env n addr bevs] unknown show ?thesis
      using getBalance_try_events [of env n addr]
      by (cases "getBalance_try env n addr")
        (auto simp: getBalanceSatoshis_def split: sum.splits option.splits)
  next
    case (Some b)
    with Pair getBalanceSatoshis_Some [of env n addr bevs b] known show ?thesis by simp
  qed
qed

lemma getBalanceSatoshis_result:
  "snd (getBalanceSatoshis env n addr) =
     (case axios_get env n (balance_url addr) of
        Inl err \<Rightarrow> None
      | Inr data \<Rightarrow> balance_field data addr)"
  using getBalance_try_result [of env n addr]
  by (cases "getBalance_try env n addr")
    (auto simp: getBalanceSatoshis_def split: sum.splits)

lemma getBalanceSatoshis_error:
  "axios_get env n (balance_url addr) = Inl err \<Longrightarrow>
     getBalanceSatoshis env n addr =
       ([LogRequest addr, HttpGet n (balance_url addr), ErrQuery addr err], None)"
  by (simp add: getBalanceSatoshis_def getBalance_try_def)

lemma getBalanceSatoshis_number:
  "snd (getBalanceSatoshis env n addr) = Some b \<Longrightarrow>
     getBalanceSatoshis env n addr =
       ([LogRequest addr, HttpGet n (balance_url addr), LogResponse b], Some b)"
  by (cases rule: getBalanceSatoshis_shape [of env n addr]) simp_all

lemma getBalanceSatoshis_oracle:
  "axios_get env' n (balance_url addr) = axios_get env n (balance_url addr) \<Longrightarrow>
     getBalanceSatoshis env' n addr = getBalanceSatoshis env n addr"
  by (simp add: getBalanceSatoshis_def getBalance_try_def)

section \<open>Properties of the loop over the address types\<close>

lemma check_indices_single:
  "check_indices env mi w p r indicesToCheck n = check_types env mi w p r 0 addressTypes n"
  by (cases "check_types env mi w p r 0 addressTypes n") (auto simp: indicesToCheck_def)

text \<open>One step of the loop ends in one of four ways.\<close>

lemma check_types_step:
  obtains
    (derive_error) err where
      "derivePubkeyAndAddress env r (pref @ string_of_nat idx) code = Inl err"
      "check_types env mi w p r idx ((code, pref) # rest) n =
         prepend [Derive code (pref @ string_of_nat idx), ErrDerive code (pref @ string_of_nat idx) err]
           (check_types env mi w p r idx rest n)"
  | (unknown) pubkey addr x where
      "derivePubkeyAndAddress env r (pref @ string_of_nat idx) code = Inr (pubkey, addr)"
      "getBalanceSatoshis env n addr = ([LogRequest addr, HttpGet n (balance_url addr), x], None)"
      "x = LogNoField addr \<or> (\<exists>err. x = ErrQuery addr err)"
      "check_types env mi w p r idx ((code, pref) # rest) n =
         prepend [Derive code (pref @ string_of_nat idx), LogDerived code (pref @ string_of_nat idx) addr,
                  LogRequest addr, HttpGet n (balance_url addr), x, LogNoBalance addr]
           (check_types env mi w p r idx rest (Suc n))"
  | (not_positive) pubkey addr b where
      "derivePubkeyAndAddress env r (pref @ string_of_nat idx) code = Inr (pubkey, addr)"
      "getBalanceSatoshis env n addr =
         ([LogRequest addr, HttpGet n (balance_url addr), LogResponse b], Some b)"
      "\<not> gt_zero b"
      "check_types env mi w p r idx ((code, pref) # rest) n =
         prepend [Derive code (pref @ string_of_nat idx), LogDerived code (pref @ string_of_nat idx) addr,
                  LogRequest addr, HttpGet n (balance_url addr), LogResponse b, LogZero addr]
           (check_types env mi w p r idx rest (Suc n))"
  | (positive) pubkey addr b where
      "derivePubkeyAndAddress env r (pref @ string_of_nat idx) code = Inr (pubkey, addr)"
      "getBalanceSatoshis env n addr =
         ([LogRequest addr, HttpGet n (balance_url addr), LogResponse b], Some b)"
      "gt_zero b"
      "check_types env mi w p r idx ((code, pref) # rest) n =
         ([Derive code (pref @ string_of_nat idx), LogDerived code (pref @ string_of_nat idx) addr,
           LogRequest addr, HttpGet n (balance_url addr), LogResponse b,
           LogFound mi w p code (pref @ string_of_nat idx) addr b], Suc n, True)"
proof (cases "derivePubkeyAndAddress env r (pref @ string_of_nat idx) code")
  case (Inl err)
  then show ?thesis using derive_error by (simp add: Let_def)
next
  case (Inr ka)
  obtain pubkey addr where ka: "ka = (pubkey, addr)" by (cases ka)
  show ?thesis
  proof (cases rule: getBalanceSatoshis_shape [of env n addr])
    case (unknown x)
    with Inr ka show ?thesis using that(2) [of pubkey addr x]
      by (simp add: Let_def)
  next
    case (known b)
    with Inr ka show ?thesis using that(3) [of pubkey addr b] that(4) [of pubkey addr b]
      by (cases "gt_zero b") (simp_all add: Let_def)
  qed
qed

lemma check_types_Nil [simp]: "check_types env mi w p r idx [] n = ([], n, False)"
  by simp

declare check_types.simps [simp del]

lemma check_types_Cons:
  "check_types env mi w p r idx ((code, pref) # rest) n =
     (case derivePubkeyAndAddress env r (pref @ string_of_nat idx) code of
        Inl err \<Rightarrow>
          prepend [Derive code (pref @ string_of_nat idx), ErrDerive code (pref @ string_of_nat idx) err]
            (check_types env mi w p r idx rest n)
      | Inr (pubkey, addr) \<Rightarrow>
          (case snd (getBalanceSatoshis env n addr) of
             None \<Rightarrow>
               prepend ([Derive code (pref @ string_of_nat idx),
                         LogDerived code (pref @ string_of_nat idx) addr] @
                        fst (getBalanceSatoshis env n addr) @ [LogNoBalance addr])
                 (check_types env mi w p r idx rest (Suc n))
           | Some balanceSat \<Rightarrow>
               (if gt_zero balanceSat then
                  ([Derive code (pref @ string_of_nat idx),
                    LogDerived code (pref @ string_of_nat idx) addr] @
                   fst (getBalanceSatoshis env n addr) @
                   [LogFound mi w p code (pref @ string_of_nat idx) addr balanceSat],
                   Suc n, True)
                else
                  prepend ([Derive code (pref @ string_of_nat idx),
                            LogDerived code (pref @ string_of_nat idx) addr] @
                           fst (getBalanceSatoshis env n addr) @ [LogZero addr])
                    (check_types env mi w p r idx rest (Suc n)))))"
  by (cases "getBalanceSatoshis env n (snd (projr (derivePubkeyAndAddress env r (pref @ string_of_nat idx) code)))")
     (auto simp: check_types.simps Let_def split: sum.splits option.splits prod.splits)

lemma check_types_derive_error:
  "derivePubkeyAndAddress env r (pref @ string_of_nat idx) code = Inl err \<Longrightarrow>
     check_types env mi w p r idx ((code, pref) # rest) n =
       prepend [Derive code (pref @ string_of_nat idx), ErrDerive code (pref @ string_of_nat idx) err]
         (check_types env mi w p r idx rest n)"
  by (simp add: check_types_Cons)

lemma check_types_number:
  "derivePubkeyAndAddress env r (pref @ string_of_nat idx) code = Inr (pubkey, addr) \<Longrightarrow>
   snd (getBalanceSatoshis env n addr) = Some b \<Longrightarrow>
     check_types env mi w p r idx ((code, pref) # rest) n =
       (if gt_zero b then
          ([Derive code (pref @ string_of_nat idx), LogDerived code (pref @ string_of_nat idx) addr,
            LogRequest addr, HttpGet n (balance_url addr), LogResponse b,
            LogFound mi w p code (pref @ string_of_nat idx) addr b], Suc n, True)
        else
          prepend
            [Derive code (pref @ string_of_nat idx), LogDerived code (pref @ string_of_nat idx) addr,
             LogRequest addr, HttpGet n (balance_url addr), LogResponse b, LogZero addr]
            (check_types env mi w p r idx rest (Suc n)))"
  using getBalanceSatoshis_number [of env n addr b] by (simp add: check_types_Cons)

text \<open>Events without a positive balance, and the events of a find.\<close>

lemma quiet_simps [simp]:
  "quiet []"
  "quiet (e # evs) = (\<not> positive_response e \<and> quiet evs)"
  "quiet (evs @ evs') = (quiet evs \<and> quiet evs')"
  by (auto simp: quiet_def)

lemma validated_simps [simp]:
  "validated [] = []"
  "validated (e # evs) = phrase_of e @ validated evs"
  "validated (evs @ evs') = validated evs @ validated evs'"
  by (simp_all add: validated_def)

lemma derived_simps [simp]:
  "derived [] = []"
  "derived (e # evs) = scheme_of e @ derived evs"
  "derived (evs @ evs') = derived evs @ derived evs'"
  by (simp_all add: derived_def)




lemma found_trace_append: "quiet pre \<Longrightarrow> found_trace mi w p evs \<Longrightarrow> found_trace mi w p (pre @ evs)"
  unfolding found_trace_def
proof (elim exE conjE)
  fix pre' b code path addr
  assume "quiet pre" "evs = pre' @ [LogResponse b, LogFound mi w p code path addr b]"
    "gt_zero b" "quiet pre'"
  then have "pre @ evs = (pre @ pre') @ [LogResponse b, LogFound mi w p code path addr b] \<and>
    gt_zero b \<and> quiet (pre @ pre')" by simp
  then show "\<exists>pre' b code path addr.
       pre @ evs = pre' @ [LogResponse b, LogFound mi w p code path addr b] \<and> gt_zero b \<and> quiet pre'"
    by blast
qed

lemma found_trace_Cons:
  "\<not> positive_response e \<Longrightarrow> found_trace mi w p evs \<Longrightarrow> found_trace mi w p (e # evs)"
  using found_trace_append [of "[e]" mi w p evs] by simp

lemma found_trace_not_quiet: "found_trace mi w p evs \<Longrightarrow> \<not> quiet evs"
  by (auto simp: found_trace_def)


text \<open>Inductions over the list of address types.\<close>

lemma check_types_shape:
  "(exited (check_types env mi w p r idx types n) \<longrightarrow>
      found_trace mi w p (fst (check_types env mi w p r idx types n))) \<and>
   (\<not> exited (check_types env mi w p r idx types n) \<longrightarrow>
      quiet (fst (check_types env mi w p r idx types n)))"
proof (induction types arbitrary: n)
  case Nil
  show ?case by simp
next
  case (Cons ct rest)
  obtain code pref where ct: "ct = (code, pref)" by (cases ct)
  show ?case
  proof (cases rule: check_types_step [of env r pref idx code mi w p rest n])
    case (derive_error err)
    with Cons.IH [of n] show ?thesis
      by (auto simp: ct intro!: found_trace_Cons)
  next
    case (unknown pubkey addr x)
    with Cons.IH [of "Suc n"] show ?thesis
      by (auto simp: ct intro!: found_trace_Cons)
  next
    case (not_positive pubkey addr b)
    with Cons.IH [of "Suc n"] show ?thesis
      by (auto simp: ct intro!: found_trace_Cons)
  next
    case (positive pubkey addr b)
    have "found_trace mi w p
       ([Derive code (pref @ string_of_nat idx), LogDerived code (pref @ string_of_nat idx) addr,
         LogRequest addr, HttpGet n (balance_url addr)] @
        [LogResponse b, LogFound mi w p code (pref @ string_of_nat idx) addr b])"
      unfolding found_trace_def using positive(3) by (intro exI conjI) (rule refl, simp_all)
    with positive show ?thesis by (simp add: ct)
  qed
qed

lemma check_types_validated:
  "validated (fst (check_types env mi w p r idx types n)) = [] \<and>
   GetRoot q \<notin> set (fst (check_types env mi w p r idx types n))"
proof (induction types arbitrary: n)
  case Nil
  show ?case by simp
next
  case (Cons ct rest)
  obtain code pref where ct: "ct = (code, pref)" by (cases ct)
  show ?case
  proof (cases rule: check_types_step [of env r pref idx code mi w p rest n])
    case (derive_error err)
    with Cons.IH [of n] show ?thesis by (simp add: ct)
  next
    case (unknown pubkey addr x)
    with Cons.IH [of "Suc n"] show ?thesis by (auto simp: ct)
  next
    case (not_positive pubkey addr b)
    with Cons.IH [of "Suc n"] show ?thesis by (simp add: ct)
  next
    case (positive pubkey addr b)
    then show ?thesis by (simp add: ct)
  qed
qed



lemma derivePubkeyAndAddress_oracle [simp]:
  "derivePubkeyAndAddress (env\<lparr>axios_get := g\<rparr>) = derivePubkeyAndAddress env"
  by (intro ext) (simp add: derivePubkeyAndAddress_def cong: sum.case_cong if_cong)

lemma getRootFromMnemonic_oracle [simp]:
  "getRootFromMnemonic (env\<lparr>axios_get := g\<rparr>) = getRootFromMnemonic env"
  by (intro ext) (simp add: getRootFromMnemonic_def cong: sum.case_cong)

lemma check_types_oracle:
  "(\<forall>k u. HttpGet k u \<in> set (fst (check_types env mi w p r idx types n)) \<longrightarrow>
      g k u = axios_get env k u) \<Longrightarrow>
   check_types (env\<lparr>axios_get := g\<rparr>) mi w p r idx types n = check_types env mi w p r idx types n"
proof (induction types arbitrary: n)
  case Nil
  show ?case by simp
next
  case (Cons ct rest)
  obtain code pref where ct: "ct = (code, pref)" by (cases ct)
  show ?case
  proof (cases rule: check_types_step [of env r pref idx code mi w p rest n])
    case (derive_error err)
    with Cons.prems have "\<forall>k u. HttpGet k u \<in> set (fst (check_types env mi w p r idx rest n)) \<longrightarrow>
      g k u = axios_get env k u" by (simp add: ct)
    from Cons.IH [OF this] derive_error show ?thesis
      by (simp add: ct check_types_Cons [of "env\<lparr>axios_get := g\<rparr>"])
  next
    case (unknown pubkey addr x)
    with Cons.prems have q: "g n (balance_url addr) = axios_get env n (balance_url addr)"
      and rest: "\<forall>k u. HttpGet k u \<in> set (fst (check_types env mi w p r idx rest (Suc n))) \<longrightarrow>
      g k u = axios_get env k u" by (simp_all add: ct)
    have "getBalanceSatoshis (env\<lparr>axios_get := g\<rparr>) n addr = getBalanceSatoshis env n addr"
      by (rule getBalanceSatoshis_oracle) (simp add: q)
    with Cons.IH [OF rest] unknown show ?thesis
      by (simp add: ct check_types_Cons [of "env\<lparr>axios_get := g\<rparr>"])
  next
    case (not_positive pubkey addr b)
    with Cons.prems have q: "g n (balance_url addr) = axios_get env n (balance_url addr)"
      and rest: "\<forall>k u. HttpGet k u \<in> set (fst (check_types env mi w p r idx rest (Suc n))) \<longrightarrow>
      g k u = axios_get env k u" by (simp_all add: ct)
    have "getBalanceSatoshis (env\<lparr>axios_get := g\<rparr>) n addr = getBalanceSatoshis env n addr"
      by (rule getBalanceSatoshis_oracle) (simp add: q)
    with Cons.IH [OF rest] not_positive show ?thesis
      by (simp add: ct check_types_Cons [of "env\<lparr>axios_get := g\<rparr>"])
  next
    case (positive pubkey addr b)
    with Cons.prems have q: "g n (balance_url addr) = axios_get env n (balance_url addr)"
      by (simp_all add: ct)
    have "getBalanceSatoshis (env\<lparr>axios_get := g\<rparr>) n addr = getBalanceSatoshis env n addr"
      by (rule getBalanceSatoshis_oracle) (simp add: q)
    with positive show ?thesis
      by (simp add: ct check_types_Cons [of "env\<lparr>axios_get := g\<rparr>"])
  qed
qed

lemma check_types_never:
  "(\<forall>n a b. snd (getBalanceSatoshis env n a) = Some b \<longrightarrow> \<not> gt_zero b) \<Longrightarrow>
     \<not> exited (check_types env mi w p r idx types n)"
proof (induction types arbitrary: n)
  case Nil
  show ?case by simp
next
  case (Cons ct rest)
  obtain code pref where ct: "ct = (code, pref)" by (cases ct)
  show ?case
  proof (cases rule: check_types_step [of env r pref idx code mi w p rest n])
    case (derive_error err)
    with Cons.IH [OF Cons.prems, of n] show ?thesis by (simp add: ct)
  next
    case (unknown pubkey addr x)
    with Cons.IH [OF Cons.prems, of "Suc n"] show ?thesis by (simp add: ct)
  next
    case (not_positive pubkey addr b)
    with Cons.IH [OF Cons.prems, of "Suc n"] show ?thesis by (simp add: ct)
  next
    case (positive pubkey addr b)
    with Cons.prems [rule_format, of n addr b] show ?thesis by simp
  qed
qed

section \<open>Properties of one pass through the loop body\<close>

text \<open>
  Writing the same slot twice keeps the second word only, so the array the loop hands on
  never changes the phrase of a later pass.
\<close>

lemma array_set_twice [simp]: "array_set (array_set xs i a) i b = array_set xs i b"
  by (auto simp: array_set_def list_update_append nat_less_iff)

lemma iteration_cases:
  obtains
    (invalid)
      "\<not> validateMnemonic env (candidate mw mi w)"
      "iteration env mi mw w n = (array_set mw mi (Some w), [Validate (candidate mw mi w)], n, False)"
  | (root_error) err where
      "validateMnemonic env (candidate mw mi w)"
      "getRootFromMnemonic env (candidate mw mi w) = Inl err"
      "iteration env mi mw w n =
         (array_set mw mi (Some w),
          [Validate (candidate mw mi w), LogSeparator, LogValid (candidate mw mi w),
           GetRoot (candidate mw mi w), ErrSeed (candidate mw mi w) err], n, False)"
  | (checked) rootNode where
      "validateMnemonic env (candidate mw mi w)"
      "getRootFromMnemonic env (candidate mw mi w) = Inr rootNode"
      "iteration env mi mw w n =
         (array_set mw mi (Some w),
          prepend
            [Validate (candidate mw mi w), LogSeparator, LogValid (candidate mw mi w),
             GetRoot (candidate mw mi w)]
            (check_types env mi w (candidate mw mi w) rootNode 0 addressTypes n))"
proof (cases "validateMnemonic env (candidate mw mi w)")
  case False
  then show ?thesis using invalid by (simp add: iteration_def candidate_def Let_def)
next
  case True
  then show ?thesis using root_error checked
    by (cases "getRootFromMnemonic env (candidate mw mi w)")
      (simp_all add: iteration_def candidate_def Let_def check_indices_single)
qed

lemma candidate_array_set [simp]: "candidate (array_set mw mi a) mi w = candidate mw mi w"
  by (simp add: candidate_def)

lemma iteration_array_set [simp]:
  "iteration env mi (array_set mw mi a) w n = iteration env mi mw w n"
  by (simp add: iteration_def)

lemma fst_iteration [simp]: "fst (iteration env mi mw w n) = array_set mw mi (Some w)"
  by (simp add: iteration_def Let_def split: sum.splits)

lemma pass_shape:
  "(exited (pass env mi mw w n) \<longrightarrow> found_trace mi w (candidate mw mi w) (fst (pass env mi mw w n))) \<and>
   (\<not> exited (pass env mi mw w n) \<longrightarrow> quiet (fst (pass env mi mw w n)))"
proof (cases rule: iteration_cases [of env mw mi w n])
  case invalid
  then show ?thesis by simp
next
  case (root_error err)
  then show ?thesis by simp
next
  case (checked rootNode)
  with check_types_shape [of env mi w "candidate mw mi w" rootNode 0 addressTypes n]
  show ?thesis by (auto intro!: found_trace_Cons)
qed

lemma pass_validated: "validated (fst (pass env mi mw w n)) = [candidate mw mi w]"
proof (cases rule: iteration_cases [of env mw mi w n])
  case (checked rootNode)
  with check_types_validated [of env mi w "candidate mw mi w" rootNode 0 addressTypes n]
  show ?thesis by simp
qed simp_all

lemma pass_GetRoot: "GetRoot q \<in> set (fst (pass env mi mw w n)) \<Longrightarrow> validateMnemonic env q"
proof (cases rule: iteration_cases [of env mw mi w n])
  case (checked rootNode)
  assume "GetRoot q \<in> set (fst (pass env mi mw w n))"
  with checked check_types_validated [of env mi w "candidate mw mi w" rootNode 0 addressTypes n q]
  show ?thesis by auto
qed auto


lemma pass_oracle:
  assumes "\<forall>k u. HttpGet k u \<in> set (fst (pass env mi mw w n)) \<longrightarrow> g k u = axios_get env k u"
  shows "iteration (env\<lparr>axios_get := g\<rparr>) mi mw w n = iteration env mi mw w n"
proof (cases rule: iteration_cases [of env mw mi w n])
  case invalid
  then show ?thesis by (simp add: iteration_def candidate_def Let_def)
next
  case (root_error err)
  then show ?thesis by (simp add: iteration_def candidate_def Let_def)
next
  case (checked rootNode)
  with assms have "\<forall>k u. HttpGet k u \<in> set (fst (check_types env mi w (candidate mw mi w) rootNode 0 addressTypes n)) \<longrightarrow> g k u = axios_get env k u"
    by simp
  from check_types_oracle [OF this] checked show ?thesis
    by (simp add: iteration_def candidate_def Let_def check_indices_single)
qed

lemma pass_never:
  "(\<forall>n a b. snd (getBalanceSatoshis env n a) = Some b \<longrightarrow> \<not> gt_zero b) \<Longrightarrow>
     \<not> exited (pass env mi mw w n)"
proof (cases rule: iteration_cases [of env mw mi w n])
  case (checked rootNode)
  assume "\<forall>n a b. snd (getBalanceSatoshis env n a) = Some b \<longrightarrow> \<not> gt_zero b"
  from check_types_never [OF this] checked show ?thesis by simp
qed simp_all

section \<open>Properties of the main loop\<close>

lemma main_loop_array_set [simp]:
  "main_loop env wl mi (array_set mw mi a) i n = main_loop env wl mi mw i n"
  by (subst main_loop.simps, subst (2) main_loop.simps) simp

lemma main_loop_unfold:
  "main_loop env wl mi mw i n =
     (if i < length wl then
        (if exited (pass env mi mw (wl ! i) n)
         then (fst (pass env mi mw (wl ! i) n), fst (snd (pass env mi mw (wl ! i) n)), True)
         else prepend (fst (pass env mi mw (wl ! i) n))
                (main_loop env wl mi mw (Suc i) (fst (snd (pass env mi mw (wl ! i) n)))))
      else ([], n, False))"
proof -
  obtain mw' evs n' ex where it: "iteration env mi mw (wl ! i) n = (mw', evs, n', ex)"
    by (cases "iteration env mi mw (wl ! i) n") auto
  then have "mw' = array_set mw mi (Some (wl ! i))"
    using fst_iteration [of env mi mw "wl ! i" n] by simp
  with it show ?thesis
    by (subst main_loop.simps) simp
qed

lemma main_loop_done [simp]: "length wl \<le> i \<Longrightarrow> main_loop env wl mi mw i n = ([], n, False)"
  by (subst main_loop_unfold) simp

lemma main_loop_exit:
  "i < length wl \<Longrightarrow> exited (pass env mi mw (wl ! i) n) \<Longrightarrow>
     main_loop env wl mi mw i n =
       (fst (pass env mi mw (wl ! i) n), fst (snd (pass env mi mw (wl ! i) n)), True)"
  by (subst main_loop_unfold) simp

lemma main_loop_next:
  "i < length wl \<Longrightarrow> \<not> exited (pass env mi mw (wl ! i) n) \<Longrightarrow>
     main_loop env wl mi mw i n =
       prepend (fst (pass env mi mw (wl ! i) n))
         (main_loop env wl mi mw (Suc i) (fst (snd (pass env mi mw (wl ! i) n))))"
  by (subst main_loop_unfold) simp

text \<open>Inductions over the words still to be tried.\<close>

lemma main_loop_quiet:
  "\<not> exited (main_loop env wl mi mw i n) \<Longrightarrow> quiet (fst (main_loop env wl mi mw i n))"
proof (induction "length wl - i" arbitrary: i n)
  case 0
  then show ?case by simp
next
  case (Suc d)
  then have i: "i < length wl" by simp
  show ?case
  proof (cases "exited (pass env mi mw (wl ! i) n)")
    case True
    with Suc.prems i show ?thesis by (simp add: main_loop_exit)
  next
    case False
    with Suc.prems i Suc.hyps(1) [of "Suc i" "fst (snd (pass env mi mw (wl ! i) n))"] Suc.hyps(2)
      pass_shape [of env mi mw "wl ! i" n]
    show ?thesis by (simp add: main_loop_next)
  qed
qed

lemma main_loop_found:
  "exited (main_loop env wl mi mw i n) \<Longrightarrow>
     \<exists>k. i \<le> k \<and> k < length wl \<and>
       found_trace mi (wl ! k) (candidate mw mi (wl ! k)) (fst (main_loop env wl mi mw i n)) \<and>
       validated (fst (main_loop env wl mi mw i n)) =
         map (candidate mw mi) (take (Suc k - i) (drop i wl))"
proof (induction "length wl - i" arbitrary: i n)
  case 0
  then show ?case by simp
next
  case (Suc d)
  then have i: "i < length wl" by simp
  then have dr: "drop i wl = wl ! i # drop (Suc i) wl" by (simp add: Cons_nth_drop_Suc)
  show ?case
  proof (cases "exited (pass env mi mw (wl ! i) n)")
    case True
    with i pass_shape [of env mi mw "wl ! i" n] show ?thesis
      by (auto simp: main_loop_exit pass_validated dr intro!: exI [where x=i])
  next
    case False
    with Suc.prems i have "exited (main_loop env wl mi mw (Suc i) (fst (snd (pass env mi mw (wl ! i) n))))"
      by (simp add: main_loop_next)
    moreover have "d = length wl - Suc i" using Suc.hyps(2) by simp
    ultimately have "\<exists>k. Suc i \<le> k \<and> k < length wl \<and>
       found_trace mi (wl ! k) (candidate mw mi (wl ! k))
         (fst (main_loop env wl mi mw (Suc i) (fst (snd (pass env mi mw (wl ! i) n))))) \<and>
       validated (fst (main_loop env wl mi mw (Suc i) (fst (snd (pass env mi mw (wl ! i) n))))) =
         map (candidate mw mi) (take (Suc k - Suc i) (drop (Suc i) wl))"
      using Suc.hyps(1) [of "Suc i" "fst (snd (pass env mi mw (wl ! i) n))"] by simp
    then obtain k where k: "Suc i \<le> k" "k < length wl"
      "found_trace mi (wl ! k) (candidate mw mi (wl ! k))
         (fst (main_loop env wl mi mw (Suc i) (fst (snd (pass env mi mw (wl ! i) n)))))"
      "validated (fst (main_loop env wl mi mw (Suc i) (fst (snd (pass env mi mw (wl ! i) n))))) =
         map (candidate mw mi) (take (Suc k - Suc i) (drop (Suc i) wl))"
      by blast
    from k(1) have s: "Suc k - i = Suc (Suc k - Suc i)" by simp
    from k False i pass_shape [of env mi mw "wl ! i" n] show ?thesis
      by (auto simp: main_loop_next pass_validated dr s simp del: diff_Suc_Suc
          intro!: exI [where x=k] found_trace_append)
  qed
qed

lemma main_loop_validated:
  "validated (fst (main_loop env wl mi mw i n)) =
     take (length (validated (fst (main_loop env wl mi mw i n)))) (map (candidate mw mi) (drop i wl)) \<and>
   (\<not> exited (main_loop env wl mi mw i n) \<longrightarrow>
      validated (fst (main_loop env wl mi mw i n)) = map (candidate mw mi) (drop i wl))"
proof (induction "length wl - i" arbitrary: i n)
  case 0
  then show ?case by simp
next
  case (Suc d)
  then have i: "i < length wl" by simp
  then have d: "drop i wl = wl ! i # drop (Suc i) wl" by (simp add: Cons_nth_drop_Suc)
  show ?case
  proof (cases "exited (pass env mi mw (wl ! i) n)")
    case True
    with i show ?thesis by (simp add: main_loop_exit pass_validated d)
  next
    case False
    with i Suc.hyps(1) [of "Suc i" "fst (snd (pass env mi mw (wl ! i) n))"] Suc.hyps(2)
    show ?thesis by (simp add: main_loop_next pass_validated d)
  qed
qed

lemma main_loop_GetRoot:
  "GetRoot q \<in> set (fst (main_loop env wl mi mw i n)) \<Longrightarrow> validateMnemonic env q"
proof (induction "length wl - i" arbitrary: i n)
  case 0
  then show ?case by simp
next
  case (Suc d)
  then have i: "i < length wl" by simp
  show ?case
  proof (cases "exited (pass env mi mw (wl ! i) n)")
    case True
    with i Suc.prems pass_GetRoot [of q env mi mw "wl ! i" n] show ?thesis
      by (simp add: main_loop_exit)
  next
    case False
    with i Suc.prems Suc.hyps(1) [of "Suc i" "fst (snd (pass env mi mw (wl ! i) n))"] Suc.hyps(2)
      pass_GetRoot [of q env mi mw "wl ! i" n]
    show ?thesis by (auto simp: main_loop_next)
  qed
qed

lemma main_loop_never:
  assumes "\<forall>n a b. snd (getBalanceSatoshis env n a) = Some b \<longrightarrow> \<not> gt_zero b"
  shows "\<not> exited (main_loop env wl mi mw i n)"
proof (induction "length wl - i" arbitrary: i n)
  case 0
  then show ?case by simp
next
  case (Suc d)
  then have i: "i < length wl" by simp
  with pass_never [OF assms, of mi mw "wl ! i" n]
    Suc.hyps(1) [of "Suc i" "fst (snd (pass env mi mw (wl ! i) n))"] Suc.hyps(2)
  show ?case by (simp add: main_loop_next)
qed

lemma main_loop_oracle:
  "(\<forall>k u. HttpGet k u \<in> set (fst (main_loop env wl mi mw i n)) \<longrightarrow> g k u = axios_get env k u) \<Longrightarrow>
   main_loop (env\<lparr>axios_get := g\<rparr>) wl mi mw i n = main_loop env wl mi mw i n"
proof (induction "length wl - i" arbitrary: i n)
  case 0
  then show ?case by simp
next
  case (Suc d)
  then have i: "i < length wl" by simp
  show ?case
  proof (cases "exited (pass env mi mw (wl ! i) n)")
    case True
    with i Suc.prems have "\<forall>k u. HttpGet k u \<in> set (fst (pass env mi mw (wl ! i) n)) \<longrightarrow> g k u = axios_get env k u"
      by (simp add: main_loop_exit)
    from pass_oracle [OF this] True i show ?thesis
      by (simp add: main_loop_exit)
  next
    case False
    with i Suc.prems have a: "\<forall>k u. HttpGet k u \<in> set (fst (pass env mi mw (wl ! i) n)) \<longrightarrow> g k u = axios_get env k u"
      and b: "\<forall>k u. HttpGet k u \<in> set (fst (main_loop env wl mi mw (Suc i) (fst (snd (pass env mi mw (wl ! i) n))))) \<longrightarrow> g k u = axios_get env k u"
      by (auto simp: main_loop_next)
    from pass_oracle [OF a] Suc.hyps(1) [OF _ b] Suc.hyps(2) False i show ?thesis
      by (simp add: main_loop_next)
  qed
qed


section \<open>Properties of the script\<close>

lemma indexOf_bounds:
  "x \<in> set xs \<Longrightarrow>
     0 \<le> indexOf xs x \<and> nat (indexOf xs x) < length xs \<and> xs ! nat (indexOf xs x) = x"
proof (induction xs)
  case Nil
  then show ?case by simp
next
  case (Cons y ys)
  show ?case
  proof (cases "y = x")
    case True
    then show ?thesis by simp
  next
    case False
    with Cons.prems have "x \<in> set ys" by simp
    from Cons.IH [OF this] False show ?thesis
      by (simp add: Let_def nat_add_distrib)
  qed
qed

lemma nullCount_hole: "nullCount xs = 1 \<Longrightarrow> None \<in> set xs"
proof -
  assume "nullCount xs = 1"
  then have "filter (\<lambda>x. x = None) xs \<noteq> []" by (auto simp: nullCount_def)
  then show ?thesis by (auto simp: filter_empty_conv)
qed

lemma hole_filled:
  "nullCount xs = 1 \<Longrightarrow> None \<notin> set (xs[nat (indexOf xs None) := Some w])"
proof (induction xs)
  case Nil
  then show ?case by simp
next
  case (Cons y ys)
  show ?case
  proof (cases y)
    case None
    with Cons.prems have "filter (\<lambda>x. x = None) ys = []" by (simp add: nullCount_def)
    with None show ?thesis by (auto simp: filter_empty_conv)
  next
    case (Some v)
    with Cons.prems have one: "nullCount ys = 1" by (simp add: nullCount_def)
    from indexOf_bounds [OF nullCount_hole [OF one]] have "0 \<le> indexOf ys None" by simp
    with Cons.IH [OF one] Some show ?thesis
      by (simp add: Let_def nat_add_distrib)
  qed
qed

lemma array_set_hole:
  "nullCount xs = 1 \<Longrightarrow> array_set xs (indexOf xs None) v = xs[nat (indexOf xs None) := v]"
  using indexOf_bounds [OF nullCount_hole, of xs] by (simp add: array_set_def)

lemma candidate_hole:
  "nullCount tmpl = 1 \<Longrightarrow>
     candidate tmpl (indexOf tmpl None) = (\<lambda>w. join_words (tmpl[nat (indexOf tmpl None) := Some w]))"
  by (intro ext) (simp add: candidate_def array_set_hole)

lemma main_run:
  "nullCount tmpl = 1 \<Longrightarrow>
     main env wl tmpl =
       (if exited (main_loop env wl (indexOf tmpl None) tmpl 0 0)
        then (LogStart (indexOf tmpl None) # fst (main_loop env wl (indexOf tmpl None) tmpl 0 0),
              ExitFound)
        else (LogStart (indexOf tmpl None) # fst (main_loop env wl (indexOf tmpl None) tmpl 0 0) @
                [LogSeparator, LogFinished, LogSeparator],
              ExitFinished))"
  by (cases "main_loop env wl (indexOf tmpl None) tmpl 0 0") (simp add: main_def)

lemma main_reject: "nullCount tmpl \<noteq> 1 \<Longrightarrow> main env wl tmpl = ([ErrNullCount], ExitNullCount)"
  by (simp add: main_def)

lemma main_quiet_iff: "snd (main env wl tmpl) = ExitFound \<longleftrightarrow> \<not> quiet (fst (main env wl tmpl))"
proof (cases "nullCount tmpl = 1")
  case False
  then show ?thesis by (simp add: main_reject)
next
  case True
  show ?thesis
  proof (cases "exited (main_loop env wl (indexOf tmpl None) tmpl 0 0)")
    case ex: True
    from main_loop_found [OF this] found_trace_not_quiet True ex show ?thesis
      by (auto simp: main_run)
  next
    case False
    with main_loop_quiet [OF this] True show ?thesis by (simp add: main_run)
  qed
qed


lemma main_validated:
  "nullCount tmpl = 1 \<Longrightarrow>
     validated (fst (main env wl tmpl)) =
       take (length (validated (fst (main env wl tmpl))))
         (map (candidate tmpl (indexOf tmpl None)) wl) \<and>
     (snd (main env wl tmpl) = ExitFinished \<longrightarrow>
        validated (fst (main env wl tmpl)) = map (candidate tmpl (indexOf tmpl None)) wl)"
  using main_loop_validated [of env wl "indexOf tmpl None" tmpl 0 0]
  by (simp add: main_run)

lemma quiet_never:
  assumes "\<forall>n a b. snd (getBalanceSatoshis env n a) = Some b \<longrightarrow> \<not> gt_zero b"
  shows "quiet (fst (main env wl tmpl))"
proof (cases "nullCount tmpl = 1")
  case True
  from main_loop_never [OF assms] have ne: "\<not> exited (main_loop env wl (indexOf tmpl None) tmpl 0 0)" .
  from main_loop_quiet [OF ne] ne True show ?thesis by (simp add: main_run)
next
  case False
  then show ?thesis by (simp add: main_reject)
qed

lemma main_finished:
  assumes "nullCount tmpl = 1"
    and "\<forall>n a b. snd (getBalanceSatoshis env n a) = Some b \<longrightarrow> \<not> gt_zero b"
  shows "snd (main env wl tmpl) = ExitFinished"
  using main_loop_never [OF assms(2), of wl "indexOf tmpl None" tmpl 0 0] assms(1)
  by (simp add: main_run)



text \<open>The definitions a run on concrete input unfolds.\<close>

lemmas run_defs = main_def nullCount_def main_loop.simps iteration_def array_set_def
  getRootFromMnemonic_def indicesToCheck_def addressTypes_def derivePubkeyAndAddress_def
  getBalanceSatoshis_def getBalance_try_def balance_url_def string_of_nat.simps
  check_types.simps balance_reply_def Let_def candidate_def validated_def derived_def
  after_first_positive_def quiet_def demo_env_def funded_env_def half_env_def
  broken_path_env_def

section \<open>Rejection of a template without exactly one hole\<close>

text \<open>
  C4. A template whose number of \<^verbatim>\<open>null\<close> slots is not one (none, or two and more) ends
  the run at once with exit code 1: the only event is the error line, so no candidate
  is built or validated and the word list is never read.
\<close>

theorem main_rejects_bad_template:
  "nullCount mnemonicWords \<noteq> 1 \<Longrightarrow>
     main env wordlist mnemonicWords = ([ErrNullCount], ExitNullCount) \<and>
     exit_code (snd (main env wordlist mnemonicWords)) = 1"
  by (simp add: main_def)

theorem main_rejects_bad_template_witness:
  "nullCount [Some ''x'', Some ''y''] \<noteq> 1 \<and> nullCount [None, Some ''y'', None] \<noteq> 1 \<and>
   main demo_env [''a'', ''b''] [Some ''x'', Some ''y''] = ([ErrNullCount], ExitNullCount) \<and>
   main demo_env [''a'', ''b''] [None, Some ''y'', None] = ([ErrNullCount], ExitNullCount)"
  using main_rejects_bad_template [of "[Some ''x'', Some ''y'']" demo_env "[''a'', ''b'']"]
    main_rejects_bad_template [of "[None, Some ''y'', None]" demo_env "[''a'', ''b'']"]
  by (simp add: nullCount_def)

section \<open>Order of the checks and the first find\<close>



section \<open>An unsupported address type\<close>

text \<open>
  C2, as the script handles it. Once the child key is derived, an address type other
  than the three known ones makes \<^verbatim>\<open>derivePubkeyAndAddress\<close> throw the error
  \<^verbatim>\<open>Unsupported addressType\<close>. In the loop every error of that function, this one
  included, is caught at line 168: it is printed and the loop goes on with the next
  address type. The only error that ends a run is the check of the template: a run ends
  at line 48, and with a code other than 0, exactly when the template does not have one
  hole.
\<close>

theorem unsupported_scheme_is_skipped:
  "(code \<noteq> ''P2PKH'' \<and> code \<noteq> ''P2SH-P2WPKH'' \<and> code \<noteq> ''P2WPKH'' \<and>
      derivePath env r path = Inr key \<longrightarrow>
      derivePubkeyAndAddress env r path code = Inl (Error (''Unsupported addressType: '' @ code))) \<and>
   (derivePubkeyAndAddress env r (pref @ string_of_nat idx) code' = Inl err \<longrightarrow>
      check_types env mi w p r idx ((code', pref) # rest) n =
        prepend [Derive code' (pref @ string_of_nat idx), ErrDerive code' (pref @ string_of_nat idx) err]
          (check_types env mi w p r idx rest n)) \<and>
   (snd (main env wl tmpl) = ExitNullCount \<longleftrightarrow> nullCount tmpl \<noteq> 1) \<and>
   (exit_code (snd (main env wl tmpl)) \<noteq> 0 \<longleftrightarrow> nullCount tmpl \<noteq> 1)"
proof (intro conjI impI)
  assume "code \<noteq> ''P2PKH'' \<and> code \<noteq> ''P2SH-P2WPKH'' \<and> code \<noteq> ''P2WPKH'' \<and>
      derivePath env r path = Inr key"
  then show "derivePubkeyAndAddress env r path code = Inl (Error (''Unsupported addressType: '' @ code))"
    by (simp add: derivePubkeyAndAddress_def)
next
  assume "derivePubkeyAndAddress env r (pref @ string_of_nat idx) code' = Inl err"
  then show "check_types env mi w p r idx ((code', pref) # rest) n =
        prepend [Derive code' (pref @ string_of_nat idx), ErrDerive code' (pref @ string_of_nat idx) err]
          (check_types env mi w p r idx rest n)"
    by (rule check_types_derive_error)
next
  show "snd (main env wl tmpl) = ExitNullCount \<longleftrightarrow> nullCount tmpl \<noteq> 1"
    by (cases "nullCount tmpl = 1") (simp_all add: main_run main_reject)
next
  show "exit_code (snd (main env wl tmpl)) \<noteq> 0 \<longleftrightarrow> nullCount tmpl \<noteq> 1"
    by (cases "nullCount tmpl = 1") (simp_all add: main_run main_reject)
qed

theorem unsupported_scheme_is_skipped_witness:
  "''BOGUS'' \<noteq> ''P2PKH'' \<and> ''BOGUS'' \<noteq> ''P2SH-P2WPKH'' \<and> ''BOGUS'' \<noteq> ''P2WPKH'' \<and>
   derivePath demo_env ''x a'' ''m/0/0'' = Inr ''x a'' \<and>
   derivePubkeyAndAddress demo_env ''x a'' (''m/0/'' @ string_of_nat 0) ''BOGUS'' =
     Inl (Error ''Unsupported addressType: BOGUS'') \<and>
   check_types demo_env 1 ''a'' ''x a'' ''x a'' 0 [(''BOGUS'', ''m/0/'')] 0 =
     ([Derive ''BOGUS'' ''m/0/0'',
       ErrDerive ''BOGUS'' ''m/0/0'' (Error ''Unsupported addressType: BOGUS'')], 0, False) \<and>
   nullCount [Some ''x'', Some ''y''] \<noteq> 1 \<and>
   snd (main demo_env [''a''] [Some ''x'', Some ''y'']) = ExitNullCount \<and>
   exit_code (snd (main demo_env [''a''] [Some ''x'', None])) = 0"
  using unsupported_scheme_is_skipped [where env=demo_env and code="''BOGUS''" and r="''x a''"
      and path="''m/0/0''" and key="''x a''" and pref="''m/0/''" and idx=0 and code'="''BOGUS''"
      and err="Error ''Unsupported addressType: BOGUS''" and mi=1 and w="''a''" and p="''x a''"
      and rest="[]" and n=0 and wl="[''a'']" and tmpl="[Some ''x'', Some ''y'']"]
    unsupported_scheme_is_skipped [where env=demo_env and wl="[''a'']" and tmpl="[Some ''x'', None]"]
  by (simp add: run_defs)

text \<open>
  The loop over an unknown address type followed by a known one: the error is printed,
  the known type is derived and queried, and the loop returns without having left the
  process.
\<close>

theorem unsupported_scheme_counterexample:
  "derivePubkeyAndAddress demo_env ''x a'' ''m/0/0'' ''BOGUS'' =
     Inl (Error ''Unsupported addressType: BOGUS'') \<and>
   check_types demo_env 1 ''a'' ''x a'' ''x a'' 0
       [(''BOGUS'', ''m/0/''), (''P2PKH'', ''m/44'/0'/0'/0/'')] 0 =
     ([Derive ''BOGUS'' ''m/0/0'',
       ErrDerive ''BOGUS'' ''m/0/0'' (Error ''Unsupported addressType: BOGUS''),
       Derive ''P2PKH'' ''m/44'/0'/0'/0/0'',
       LogDerived ''P2PKH'' ''m/44'/0'/0'/0/0'' ''1x a'',
       LogRequest ''1x a'',
       HttpGet 0 ''https://blockchain.info/balance?active=1x a'',
       ErrQuery ''1x a'' (Error ''timeout''),
       LogNoBalance ''1x a''], 1, False)"
  by (simp add: run_defs)

section \<open>Candidates that fail the checksum\<close>

text \<open>
  C3. When the validator returns false for a phrase, the pass that built it produces the
  call of the validator and nothing else (no console line, no error line, no derivation
  call), hands the loop on with the request count unchanged, and no run ever calls
  \<^verbatim>\<open>getRootFromMnemonic\<close> on that phrase.
\<close>

theorem invalid_checksum_discarded:
  "\<not> validateMnemonic env q \<Longrightarrow>
     (q = candidate mw mi w \<longrightarrow>
        iteration env mi mw w n = (array_set mw mi (Some w), [Validate q], n, False) \<and>
        derived (fst (pass env mi mw w n)) = []) \<and>
     GetRoot q \<notin> set (fst (main env wl tmpl))"
proof (intro conjI impI)
  assume inv: "\<not> validateMnemonic env q" and q: "q = candidate mw mi w"
  then show it: "iteration env mi mw w n = (array_set mw mi (Some w), [Validate q], n, False)"
    by (simp add: iteration_def candidate_def Let_def)
  then show "derived (fst (pass env mi mw w n)) = []" by simp
next
  assume inv: "\<not> validateMnemonic env q"
  show "GetRoot q \<notin> set (fst (main env wl tmpl))"
  proof (cases "nullCount tmpl = 1")
    case True
    with inv main_loop_GetRoot [of q env wl "indexOf tmpl None" tmpl 0 0] show ?thesis
      by (auto simp: main_run)
  next
    case False
    then show ?thesis by (simp add: main_reject)
  qed
qed

theorem invalid_checksum_discarded_witness:
  "\<not> validateMnemonic strict_env ''x a'' \<and> ''x a'' = candidate [Some ''x'', None] 1 ''a'' \<and>
   iteration strict_env 1 [Some ''x'', None] ''a'' 0 =
     ([Some ''x'', Some ''a''], [Validate ''x a''], 0, False) \<and>
   GetRoot ''x a'' \<notin> set (fst (main strict_env [''a'', ''b''] [Some ''x'', None])) \<and>
   GetRoot ''x b'' \<in> set (fst (main strict_env [''a'', ''b''] [Some ''x'', None]))"
  using invalid_checksum_discarded [where env=strict_env and q="''x a''" and mw="[Some ''x'', None]"
      and mi=1 and w="''a''" and n=0 and wl="[''a'', ''b'']" and tmpl="[Some ''x'', None]"]
  by (simp add: run_defs strict_env_def)

section \<open>Failing derivations\<close>

text \<open>
  C5, as the script handles it. The root node fails when \<^verbatim>\<open>mnemonicToSeedSync\<close> or
  \<^verbatim>\<open>fromSeed\<close> throws; the error is printed at line 149 and the main loop goes on
  with the next word. When \<^verbatim>\<open>derivePubkeyAndAddress\<close> throws for one address type,
  the error is printed at line 169 and the loop goes on with the next address type of
  the same candidate. The main loop reaches the next word whenever the pass did not end
  at line 189.
\<close>

theorem derivation_failure_is_skipped:
  "(mnemonicToSeedSync env q = Inl err \<or>
      (mnemonicToSeedSync env q = Inr seed \<and> fromSeed env seed = Inl err) \<longrightarrow>
      getRootFromMnemonic env q = Inl err) \<and>
   (i < length wl \<and> validateMnemonic env (candidate mw mi (wl ! i)) \<and>
      getRootFromMnemonic env (candidate mw mi (wl ! i)) = Inl err \<longrightarrow>
      main_loop env wl mi mw i n =
        prepend
          [Validate (candidate mw mi (wl ! i)), LogSeparator, LogValid (candidate mw mi (wl ! i)),
           GetRoot (candidate mw mi (wl ! i)), ErrSeed (candidate mw mi (wl ! i)) err]
          (main_loop env wl mi mw (Suc i) n)) \<and>
   (derivePubkeyAndAddress env r (pref @ string_of_nat idx) code = Inl err \<longrightarrow>
      check_types env mi w p r idx ((code, pref) # rest) n =
        prepend [Derive code (pref @ string_of_nat idx), ErrDerive code (pref @ string_of_nat idx) err]
          (check_types env mi w p r idx rest n)) \<and>
   (i < length wl \<and> \<not> exited (pass env mi mw (wl ! i) n) \<longrightarrow>
      main_loop env wl mi mw i n =
        prepend (fst (pass env mi mw (wl ! i) n))
          (main_loop env wl mi mw (Suc i) (fst (snd (pass env mi mw (wl ! i) n)))))"
proof (intro conjI impI)
  assume "mnemonicToSeedSync env q = Inl err \<or>
      (mnemonicToSeedSync env q = Inr seed \<and> fromSeed env seed = Inl err)"
  then show "getRootFromMnemonic env q = Inl err"
    by (auto simp: getRootFromMnemonic_def)
next
  assume a: "i < length wl \<and> validateMnemonic env (candidate mw mi (wl ! i)) \<and>
      getRootFromMnemonic env (candidate mw mi (wl ! i)) = Inl err"
  then have "iteration env mi mw (wl ! i) n =
      (array_set mw mi (Some (wl ! i)),
       [Validate (candidate mw mi (wl ! i)), LogSeparator, LogValid (candidate mw mi (wl ! i)),
        GetRoot (candidate mw mi (wl ! i)), ErrSeed (candidate mw mi (wl ! i)) err], n, False)"
    by (simp add: iteration_def candidate_def Let_def)
  with a show "main_loop env wl mi mw i n =
        prepend
          [Validate (candidate mw mi (wl ! i)), LogSeparator, LogValid (candidate mw mi (wl ! i)),
           GetRoot (candidate mw mi (wl ! i)), ErrSeed (candidate mw mi (wl ! i)) err]
          (main_loop env wl mi mw (Suc i) n)"
    by (simp add: main_loop_next)
next
  assume "derivePubkeyAndAddress env r (pref @ string_of_nat idx) code = Inl err"
  then show "check_types env mi w p r idx ((code, pref) # rest) n =
        prepend [Derive code (pref @ string_of_nat idx), ErrDerive code (pref @ string_of_nat idx) err]
          (check_types env mi w p r idx rest n)"
    by (rule check_types_derive_error)
next
  assume "i < length wl \<and> \<not> exited (pass env mi mw (wl ! i) n)"
  then show "main_loop env wl mi mw i n =
        prepend (fst (pass env mi mw (wl ! i) n))
          (main_loop env wl mi mw (Suc i) (fst (snd (pass env mi mw (wl ! i) n))))"
    by (simp add: main_loop_next)
qed

theorem derivation_failure_is_skipped_witness:
  "mnemonicToSeedSync no_seed_env ''x a'' = Inr ''x a'' \<and>
   fromSeed no_seed_env ''x a'' = Inl (Error ''Seed should be at least 128 bits'') \<and>
   (0::nat) < length [''a'', ''b''] \<and> validateMnemonic no_seed_env (candidate [Some ''x'', None] 1 ''a'') \<and>
   getRootFromMnemonic no_seed_env ''x a'' = Inl (Error ''Seed should be at least 128 bits'') \<and>
   \<not> exited (pass no_seed_env 1 [Some ''x'', None] ''a'' 0) \<and>
   main_loop no_seed_env [''a'', ''b''] 1 [Some ''x'', None] 0 0 =
     prepend
       [Validate ''x a'', LogSeparator, LogValid ''x a'', GetRoot ''x a'',
        ErrSeed ''x a'' (Error ''Seed should be at least 128 bits'')]
       (main_loop no_seed_env [''a'', ''b''] 1 [Some ''x'', None] 1 0) \<and>
   derivePubkeyAndAddress broken_path_env ''x a'' (''m/44'/0'/0'/0/'' @ string_of_nat 0) ''P2PKH'' =
     Inl (Error ''Expected BIP32Path'') \<and>
   check_types broken_path_env 1 ''a'' ''x a'' ''x a'' 0 [(''P2PKH'', ''m/44'/0'/0'/0/'')] 0 =
     ([Derive ''P2PKH'' ''m/44'/0'/0'/0/0'',
       ErrDerive ''P2PKH'' ''m/44'/0'/0'/0/0'' (Error ''Expected BIP32Path'')], 0, False)"
  using derivation_failure_is_skipped [where env=no_seed_env and q="''x a''" and seed="''x a''"
      and err="Error ''Seed should be at least 128 bits''" and i=0 and wl="[''a'', ''b'']"
      and mw="[Some ''x'', None]" and mi=1 and n=0]
    derivation_failure_is_skipped [where env=broken_path_env and r="''x a''"
      and pref="''m/44'/0'/0'/0/''" and idx=0 and code="''P2PKH''"
      and err="Error ''Expected BIP32Path''" and mi=1 and w="''a''" and p="''x a''" and rest="[]"
      and n=0]
  by (simp add: run_defs no_seed_env_def)

text \<open>
  Derivation fails on the BIP-44 path of the first candidate, whose nested SegWit
  address is funded: the error is printed, the run ends with a find at the same
  candidate, and the second word is never tried.
\<close>

theorem derivation_failure_counterexample:
  "derivePubkeyAndAddress broken_path_env ''x a'' ''m/44'/0'/0'/0/0'' ''P2PKH'' =
     Inl (Error ''Expected BIP32Path'') \<and>
   ErrDerive ''P2PKH'' ''m/44'/0'/0'/0/0'' (Error ''Expected BIP32Path'')
     \<in> set (fst (main broken_path_env [''a'', ''b''] [Some ''x'', None])) \<and>
   validated (fst (main broken_path_env [''a'', ''b''] [Some ''x'', None])) = [''x a''] \<and>
   snd (main broken_path_env [''a'', ''b''] [Some ''x'', None]) = ExitFound"
  by (simp add: run_defs)

section \<open>The balance client never throws\<close>

text \<open>
  C6. \<^verbatim>\<open>getBalanceSatoshis\<close> returns a value for every environment, request count and
  address: \<^verbatim>\<open>null\<close> when the request throws (network error or timeout), with the
  error printed; the number of the balance field when the response is well formed, in
  particular every integer balance; \<^verbatim>\<open>null\<close> when the entry or the field is missing
  or the field is not a number.
\<close>

theorem getBalanceSatoshis_never_throws:
  "snd (getBalanceSatoshis env n addr) =
     (case axios_get env n (balance_url addr) of
        Inl err \<Rightarrow> None
      | Inr data \<Rightarrow> balance_field data addr) \<and>
   (axios_get env n (balance_url addr) = Inl err \<longrightarrow>
      getBalanceSatoshis env n addr =
        ([LogRequest addr, HttpGet n (balance_url addr), ErrQuery addr err], None)) \<and>
   (axios_get env n (balance_url addr) = Inr data \<and>
      balance_field data addr = Some (Finite (of_int k)) \<longrightarrow>
      getBalanceSatoshis env n addr =
        ([LogRequest addr, HttpGet n (balance_url addr), LogResponse (Finite (of_int k))],
         Some (Finite (of_int k)))) \<and>
   (axios_get env n (balance_url addr) = Inr data \<and> balance_field data addr = None \<longrightarrow>
      snd (getBalanceSatoshis env n addr) = None)"
proof (intro conjI impI)
  show "snd (getBalanceSatoshis env n addr) =
     (case axios_get env n (balance_url addr) of
        Inl err \<Rightarrow> None
      | Inr data \<Rightarrow> balance_field data addr)"
    by (rule getBalanceSatoshis_result)
next
  assume "axios_get env n (balance_url addr) = Inl err"
  then show "getBalanceSatoshis env n addr =
        ([LogRequest addr, HttpGet n (balance_url addr), ErrQuery addr err], None)"
    by (rule getBalanceSatoshis_error)
next
  assume "axios_get env n (balance_url addr) = Inr data \<and>
      balance_field data addr = Some (Finite (of_int k))"
  then have "snd (getBalanceSatoshis env n addr) = Some (Finite (of_int k))"
    by (simp add: getBalanceSatoshis_result)
  then show "getBalanceSatoshis env n addr =
        ([LogRequest addr, HttpGet n (balance_url addr), LogResponse (Finite (of_int k))],
         Some (Finite (of_int k)))"
    by (rule getBalanceSatoshis_number)
next
  assume "axios_get env n (balance_url addr) = Inr data \<and> balance_field data addr = None"
  then show "snd (getBalanceSatoshis env n addr) = None"
    by (simp add: getBalanceSatoshis_result)
qed

theorem getBalanceSatoshis_never_throws_witness:
  "axios_get demo_env 0 (balance_url ''1x c'') = Inl (Error ''timeout'') \<and>
   getBalanceSatoshis demo_env 0 ''1x c'' =
     ([LogRequest ''1x c'', HttpGet 0 (balance_url ''1x c''), ErrQuery ''1x c'' (Error ''timeout'')],
      None) \<and>
   axios_get funded_env 0 (balance_url ''1x c'') = Inr (balance_reply ''1x c'' (Finite 7)) \<and>
   balance_field (balance_reply ''1x c'' (Finite 7)) ''1x c'' = Some (Finite (of_int 7)) \<and>
   getBalanceSatoshis funded_env 0 ''1x c'' =
     ([LogRequest ''1x c'', HttpGet 0 (balance_url ''1x c''), LogResponse (Finite 7)],
      Some (Finite 7)) \<and>
   axios_get funded_env 0 (balance_url ''1x a'') = Inr (JObject []) \<and>
   balance_field (JObject []) ''1x a'' = None \<and>
   snd (getBalanceSatoshis funded_env 0 ''1x a'') = None"
  using getBalanceSatoshis_never_throws [where env=demo_env and n=0 and addr="''1x c''"
      and err="Error ''timeout''"]
    getBalanceSatoshis_never_throws [where env=funded_env and n=0 and addr="''1x c''"
      and data="balance_reply ''1x c'' (Finite 7)" and k=7]
    getBalanceSatoshis_never_throws [where env=funded_env and n=0 and addr="''1x a''"
      and data="JObject []"]
  by (simp add: demo_env_def funded_env_def balance_url_def balance_reply_def)

section \<open>The candidates\<close>

text \<open>
  C7. For a template of twelve slots with one hole and a word list of 2048 entries, the
  hole is a position of the template, filling it with a word gives twelve words without
  a hole, and the phrases handed to the validator are, in order, the template with the
  first, second, ... word of the list in the hole: an initial part of these 2048 phrases
  in every run, and all 2048 of them in a run that ends without a find.
\<close>

theorem candidates_in_wordlist_order:
  assumes "nullCount tmpl = 1" and "length tmpl = 12" and "length wl = 2048"
  shows "0 \<le> indexOf tmpl None \<and> nat (indexOf tmpl None) < 12 \<and>
     tmpl ! nat (indexOf tmpl None) = None \<and>
     (\<forall>w. array_set tmpl (indexOf tmpl None) (Some w) = tmpl[nat (indexOf tmpl None) := Some w] \<and>
          length (tmpl[nat (indexOf tmpl None) := Some w]) = 12 \<and>
          None \<notin> set (tmpl[nat (indexOf tmpl None) := Some w])) \<and>
     validated (fst (main env wl tmpl)) =
       take (length (validated (fst (main env wl tmpl))))
         (map (\<lambda>w. join_words (tmpl[nat (indexOf tmpl None) := Some w])) wl) \<and>
     (\<forall>i < length (validated (fst (main env wl tmpl))).
        i < 2048 \<and>
        validated (fst (main env wl tmpl)) ! i =
          join_words (tmpl[nat (indexOf tmpl None) := Some (wl ! i)])) \<and>
     (snd (main env wl tmpl) = ExitFinished \<longrightarrow>
        validated (fst (main env wl tmpl)) =
          map (\<lambda>w. join_words (tmpl[nat (indexOf tmpl None) := Some w])) wl \<and>
        length (validated (fst (main env wl tmpl))) = 2048)"
proof -
  let ?mi = "indexOf tmpl None"
  let ?c = "\<lambda>w. join_words (tmpl[nat ?mi := Some w])"
  let ?v = "validated (fst (main env wl tmpl))"
  have hole: "0 \<le> ?mi \<and> nat ?mi < 12 \<and> tmpl ! nat ?mi = None"
    using indexOf_bounds [OF nullCount_hole [OF assms(1)]] assms(2) by simp
  have full: "\<forall>w. array_set tmpl ?mi (Some w) = tmpl[nat ?mi := Some w] \<and>
          length (tmpl[nat ?mi := Some w]) = 12 \<and> None \<notin> set (tmpl[nat ?mi := Some w])"
    using array_set_hole [OF assms(1)] hole_filled [OF assms(1)] assms(2) by simp
  have pre: "?v = take (length ?v) (map ?c wl)"
    and all: "snd (main env wl tmpl) = ExitFinished \<longrightarrow> ?v = map ?c wl"
    using main_validated [OF assms(1), of env wl] by (simp_all add: candidate_hole [OF assms(1)])
  have len: "length ?v \<le> 2048"
  proof -
    have "length ?v = length (take (length ?v) (map ?c wl))" using pre by simp
    then show ?thesis using assms(3) by simp
  qed
  have nth: "\<forall>i < length ?v. i < 2048 \<and> ?v ! i = ?c (wl ! i)"
  proof (intro allI impI)
    fix i assume i: "i < length ?v"
    with len have i': "i < 2048" by simp
    have "?v ! i = take (length ?v) (map ?c wl) ! i" using pre by simp
    also have "\<dots> = ?c (wl ! i)" using i i' assms(3) by simp
    finally show "i < 2048 \<and> ?v ! i = ?c (wl ! i)" using i' by simp
  qed
  have fin: "snd (main env wl tmpl) = ExitFinished \<longrightarrow> ?v = map ?c wl \<and> length ?v = 2048"
  proof
    assume "snd (main env wl tmpl) = ExitFinished"
    with all have e: "?v = map ?c wl" by simp
    then have "length ?v = length (map ?c wl)" by simp
    with e assms(3) show "?v = map ?c wl \<and> length ?v = 2048" by simp
  qed
  from hole full pre nth fin show ?thesis by blast
qed

theorem candidates_in_wordlist_order_witness:
  "nullCount template12 = 1 \<and> length template12 = 12 \<and> length wordlist2048 = 2048 \<and>
   indexOf template12 None = 11 \<and>
   snd (main demo_env wordlist2048 template12) = ExitFinished \<and>
   length (validated (fst (main demo_env wordlist2048 template12))) = 2048 \<and>
   validated (fst (main demo_env wordlist2048 template12)) ! 2047 =
     ''w1 w2 w3 w4 w5 w6 w7 w8 w9 w10 w11 zoo''"
proof -
  have h1: "nullCount template12 = 1" by (simp add: nullCount_def template12_def)
  have h2: "length template12 = 12" by (simp add: template12_def)
  have h3: "length wordlist2048 = 2048" by (simp add: wordlist2048_def)
  have h4: "indexOf template12 None = 11" by (simp add: template12_def)
  have "\<forall>n a b. snd (getBalanceSatoshis demo_env n a) = Some b \<longrightarrow> \<not> gt_zero b"
    by (simp add: getBalanceSatoshis_result demo_env_def)
  from main_finished [OF h1 this] have fin: "snd (main demo_env wordlist2048 template12) = ExitFinished" .
  note T = candidates_in_wordlist_order [OF h1 h2 h3, of demo_env]
  from T fin have len: "length (validated (fst (main demo_env wordlist2048 template12))) = 2048"
    by blast
  have z: "wordlist2048 ! 2047 = ''zoo''" by (simp add: wordlist2048_def nth_append)
  from T len have "validated (fst (main demo_env wordlist2048 template12)) ! 2047 =
    join_words (template12[nat (indexOf template12 None) := Some (wordlist2048 ! 2047)])"
    by simp
  also have "\<dots> = ''w1 w2 w3 w4 w5 w6 w7 w8 w9 w10 w11 zoo''"
    by (simp add: h4 z) (simp add: template12_def)
  finally show ?thesis using h1 h2 h3 h4 fin len by simp
qed

section \<open>Running out of words\<close>

text \<open>
  C8. For a template with one hole: when every request fails, or more generally when the
  balance client never returns a number above zero, no positive balance is observed;
  and a run in which none is observed ends at line 200 with exit code 0, after every
  word of the list has been tried, its last three lines being the report that nothing
  was found.
\<close>

theorem exhausted_run_exits_zero:
  assumes "nullCount tmpl = 1"
  shows "((\<forall>n u. isl (axios_get env n u)) \<longrightarrow> quiet (fst (main env wl tmpl))) \<and>
     ((\<forall>n a b. snd (getBalanceSatoshis env n a) = Some b \<longrightarrow> \<not> gt_zero b) \<longrightarrow>
        quiet (fst (main env wl tmpl))) \<and>
     (quiet (fst (main env wl tmpl)) \<longrightarrow>
        snd (main env wl tmpl) = ExitFinished \<and>
        exit_code (snd (main env wl tmpl)) = 0 \<and>
        validated (fst (main env wl tmpl)) = map (candidate tmpl (indexOf tmpl None)) wl \<and>
        length (validated (fst (main env wl tmpl))) = length wl \<and>
        fst (main env wl tmpl) =
          LogStart (indexOf tmpl None) # fst (main_loop env wl (indexOf tmpl None) tmpl 0 0) @
            [LogSeparator, LogFinished, LogSeparator])"
proof (intro conjI impI)
  assume t: "\<forall>n u. isl (axios_get env n u)"
  have "\<forall>n a b. snd (getBalanceSatoshis env n a) = Some b \<longrightarrow> \<not> gt_zero b"
  proof (intro allI impI)
    fix n a b assume s: "snd (getBalanceSatoshis env n a) = Some b"
    from t have "isl (axios_get env n (balance_url a))" by blast
    then have "snd (getBalanceSatoshis env n a) = None"
      by (cases "axios_get env n (balance_url a)") (simp_all add: getBalanceSatoshis_result)
    with s show "\<not> gt_zero b" by simp
  qed
  then show "quiet (fst (main env wl tmpl))" by (rule quiet_never)
next
  assume "\<forall>n a b. snd (getBalanceSatoshis env n a) = Some b \<longrightarrow> \<not> gt_zero b"
  then show "quiet (fst (main env wl tmpl))" by (rule quiet_never)
next
  assume q: "quiet (fst (main env wl tmpl))"
  then have nf: "snd (main env wl tmpl) \<noteq> ExitFound" by (simp add: main_quiet_iff)
  with assms have ne: "\<not> exited (main_loop env wl (indexOf tmpl None) tmpl 0 0)"
    by (auto simp: main_run)
  with assms show fin: "snd (main env wl tmpl) = ExitFinished" by (simp add: main_run)
  then show "exit_code (snd (main env wl tmpl)) = 0" by simp
  from fin main_validated [OF assms, of env wl]
  show v: "validated (fst (main env wl tmpl)) = map (candidate tmpl (indexOf tmpl None)) wl"
    by simp
  then have "length (validated (fst (main env wl tmpl))) =
    length (map (candidate tmpl (indexOf tmpl None)) wl)" by (rule arg_cong)
  then show "length (validated (fst (main env wl tmpl))) = length wl" by simp
  from assms ne show "fst (main env wl tmpl) =
          LogStart (indexOf tmpl None) # fst (main_loop env wl (indexOf tmpl None) tmpl 0 0) @
            [LogSeparator, LogFinished, LogSeparator]" by (simp add: main_run)
qed

theorem exhausted_run_exits_zero_witness:
  "nullCount [Some ''x'', None] = 1 \<and> (\<forall>n u. isl (axios_get demo_env n u)) \<and>
   quiet (fst (main demo_env [''a'', ''b''] [Some ''x'', None])) \<and>
   snd (main demo_env [''a'', ''b''] [Some ''x'', None]) = ExitFinished \<and>
   exit_code (snd (main demo_env [''a'', ''b''] [Some ''x'', None])) = 0 \<and>
   validated (fst (main demo_env [''a'', ''b''] [Some ''x'', None])) = [''x a'', ''x b'']"
proof -
  have h1: "nullCount [Some ''x'', None] = 1" by (simp add: nullCount_def)
  have h2: "\<forall>n u. isl (axios_get demo_env n u)" by (simp add: demo_env_def)
  have c: "map (candidate [Some ''x'', None] (indexOf [Some ''x'', None] None)) [''a'', ''b''] =
    [''x a'', ''x b'']" by (simp add: candidate_def array_set_def)
  from exhausted_run_exits_zero [OF h1, of demo_env "[''a'', ''b'']"] h1 h2 c show ?thesis
    by simp
qed

section \<open>Two runs\<close>

text \<open>
  C9. Take a run, and a second run with the same libraries, word list and template whose
  balance service gives the same answer to every request the first run issued. The
  second run has the same events and ends at the same place: the same find with the
  same phrase, address type and address, or no find in both.
\<close>

theorem search_deterministic:
  assumes "\<forall>k u. HttpGet k u \<in> set (fst (main env wl tmpl)) \<longrightarrow> g k u = axios_get env k u"
  shows "main (env\<lparr>axios_get := g\<rparr>) wl tmpl = main env wl tmpl"
proof (cases "nullCount tmpl = 1")
  case False
  then show ?thesis by (simp add: main_reject)
next
  case True
  with assms have "\<forall>k u. HttpGet k u \<in> set (fst (main_loop env wl (indexOf tmpl None) tmpl 0 0)) \<longrightarrow>
    g k u = axios_get env k u"
    by (auto simp: main_run split: if_splits)
  from main_loop_oracle [OF this] True show ?thesis by (simp add: main_run)
qed

theorem search_deterministic_witness:
  "axios_get late_env 3 (balance_url ''1x a'') \<noteq> axios_get demo_env 3 (balance_url ''1x a'') \<and>
   main (demo_env\<lparr>axios_get := axios_get late_env\<rparr>) [''a''] [Some ''x'', None] =
     main demo_env [''a''] [Some ''x'', None] \<and>
   snd (main demo_env [''a''] [Some ''x'', None]) = ExitFinished"
proof -
  have h: "\<forall>k u. HttpGet k u \<in> set (fst (main demo_env [''a''] [Some ''x'', None])) \<longrightarrow>
      axios_get late_env k u = axios_get demo_env k u"
    by (auto simp: run_defs late_env_def)
  have d: "axios_get late_env 3 (balance_url ''1x a'') \<noteq> axios_get demo_env 3 (balance_url ''1x a'')"
    by (simp add: late_env_def demo_env_def)
  have e: "snd (main demo_env [''a''] [Some ''x'', None]) = ExitFinished"
    by (simp add: run_defs)
  from search_deterministic [OF h] d e show ?thesis by blast
qed

section \<open>Balances that are not positive integers\<close>

text \<open>
  C10, as the script handles it. Whatever number the balance field holds, the client
  returns it unchanged. The loop then decides by \<^verbatim>\<open>balanceSat > 0\<close> alone: for a
  number above zero, an integer or not, it prints the report and leaves the process;
  for zero and for a negative number it prints the zero balance line and goes on.
\<close>

theorem balance_returned_as_is:
  "(axios_get env n (balance_url addr) = Inr data \<and> balance_field data addr = Some b \<longrightarrow>
      snd (getBalanceSatoshis env n addr) = Some b) \<and>
   (derivePubkeyAndAddress env r (pref @ string_of_nat idx) code = Inr (pubkey, addr) \<and>
    snd (getBalanceSatoshis env n addr) = Some b \<longrightarrow>
      check_types env mi w p r idx ((code, pref) # rest) n =
        (if gt_zero b then
           ([Derive code (pref @ string_of_nat idx), LogDerived code (pref @ string_of_nat idx) addr,
             LogRequest addr, HttpGet n (balance_url addr), LogResponse b,
             LogFound mi w p code (pref @ string_of_nat idx) addr b], Suc n, True)
         else
           prepend
             [Derive code (pref @ string_of_nat idx), LogDerived code (pref @ string_of_nat idx) addr,
              LogRequest addr, HttpGet n (balance_url addr), LogResponse b, LogZero addr]
             (check_types env mi w p r idx rest (Suc n)))) \<and>
   (gt_zero (Finite x) \<longleftrightarrow> 0 < x)"
proof (intro conjI impI)
  assume "axios_get env n (balance_url addr) = Inr data \<and> balance_field data addr = Some b"
  then show "snd (getBalanceSatoshis env n addr) = Some b"
    by (simp add: getBalanceSatoshis_result)
next
  assume "derivePubkeyAndAddress env r (pref @ string_of_nat idx) code = Inr (pubkey, addr) \<and>
    snd (getBalanceSatoshis env n addr) = Some b"
  then show "check_types env mi w p r idx ((code, pref) # rest) n =
        (if gt_zero b then
           ([Derive code (pref @ string_of_nat idx), LogDerived code (pref @ string_of_nat idx) addr,
             LogRequest addr, HttpGet n (balance_url addr), LogResponse b,
             LogFound mi w p code (pref @ string_of_nat idx) addr b], Suc n, True)
         else
           prepend
             [Derive code (pref @ string_of_nat idx), LogDerived code (pref @ string_of_nat idx) addr,
              LogRequest addr, HttpGet n (balance_url addr), LogResponse b, LogZero addr]
             (check_types env mi w p r idx rest (Suc n)))"
    using check_types_number [of env r pref idx code pubkey addr n b mi w p rest] by blast
next
  show "gt_zero (Finite x) \<longleftrightarrow> 0 < x" by simp
qed

theorem balance_returned_as_is_witness:
  "axios_get debt_env 0 (balance_url ''1x a'') = Inr (balance_reply ''1x a'' (Finite (- 5))) \<and>
   balance_field (balance_reply ''1x a'' (Finite (- 5))) ''1x a'' = Some (Finite (- 5)) \<and>
   derivePubkeyAndAddress debt_env ''x a'' (''m/44'/0'/0'/0/'' @ string_of_nat 0) ''P2PKH'' =
     Inr (''x a'', ''1x a'') \<and>
   snd (getBalanceSatoshis debt_env 0 ''1x a'') = Some (Finite (- 5)) \<and>
   check_types debt_env 1 ''a'' ''x a'' ''x a'' 0 [(''P2PKH'', ''m/44'/0'/0'/0/'')] 0 =
     ([Derive ''P2PKH'' ''m/44'/0'/0'/0/0'', LogDerived ''P2PKH'' ''m/44'/0'/0'/0/0'' ''1x a'',
       LogRequest ''1x a'', HttpGet 0 (balance_url ''1x a''), LogResponse (Finite (- 5)),
       LogZero ''1x a''], 1, False)"
  using balance_returned_as_is [where env=debt_env and n=0 and addr="''1x a''"
      and data="balance_reply ''1x a'' (Finite (- 5))" and b="Finite (- 5)" and r="''x a''"
      and pref="''m/44'/0'/0'/0/''" and idx=0 and code="''P2PKH''" and pubkey="''x a''" and mi=1
      and w="''a''" and p="''x a''" and rest="[]"]
  by (simp add: run_defs debt_env_def)

text \<open>Half a satoshi is no integer, it is returned as it is, and the run ends with a find.\<close>

theorem fractional_balance_counterexample:
  "(1/2::real) \<notin> \<int> \<and>
   snd (getBalanceSatoshis half_env 0 ''1x a'') = Some (Finite (1/2)) \<and>
   snd (main half_env [''a''] [Some ''x'', None]) = ExitFound \<and>
   last (fst (main half_env [''a''] [Some ''x'', None])) =
     LogFound 1 ''a'' ''x a'' ''P2PKH'' ''m/44'/0'/0'/0/0'' ''1x a'' (Finite (1/2))"
  by (simp add: run_defs)

end
